theory Spec2Isabelle
  imports Main "HOL-Library.Word"
begin

section \<open>JavaScript strings\<close>

text \<open>
  A JavaScript string is a sequence of UTF-16 code units. \<open>js\<close> turns an ASCII literal
  into such a sequence. A string is falsy exactly when it is empty.
\<close>

type_synonym code_unit = "16 word"
type_synonym jsstring = "code_unit list"

definition js :: "string \<Rightarrow> jsstring" where
  "js s = map of_char s"

datatype error = URIError | TypeError

text \<open>\<^verbatim>\<open>String.prototype.trim\<close>: the code units of WhiteSpace and LineTerminator.\<close>

definition isWhiteSpace :: "code_unit \<Rightarrow> bool" where
  "isWhiteSpace c \<longleftrightarrow>
     c = 0x9 \<or> c = 0xA \<or> c = 0xB \<or> c = 0xC \<or> c = 0xD \<or> c = 0x20 \<or> c = 0xA0 \<or>
     c = 0x1680 \<or> (0x2000 \<le> c \<and> c \<le> 0x200A) \<or> c = 0x2028 \<or> c = 0x2029 \<or>
     c = 0x202F \<or> c = 0x205F \<or> c = 0x3000 \<or> c = 0xFEFF"

definition trim :: "jsstring \<Rightarrow> jsstring" where
  "trim s = rev (dropWhile isWhiteSpace (rev (dropWhile isWhiteSpace s)))"

text \<open>\<^verbatim>\<open>xs[i]\<close> for an integral index: \<^verbatim>\<open>undefined\<close> (here \<open>None\<close>) out of range.\<close>

definition js_index :: "'a list \<Rightarrow> int \<Rightarrow> 'a option" where
  "js_index xs i = (if 0 \<le> i \<and> i < int (length xs) then Some (xs ! nat i) else None)"

text \<open>\<^verbatim>\<open>xs.slice(0, e)\<close>: a negative end counts from the end of the array.\<close>

definition slice0 :: "'a list \<Rightarrow> int \<Rightarrow> 'a list" where
  "slice0 xs e =
     (let len = int (length xs);
          final = (if e < 0 then max (len + e) 0 else min e len)
      in take (nat final) xs)"

text \<open>\<^verbatim>\<open>xs.findIndex(p)\<close>, with \<open>None\<close> for \<^verbatim>\<open>-1\<close>.\<close>

fun findIndex :: "('a \<Rightarrow> bool) \<Rightarrow> 'a list \<Rightarrow> nat option" where
  "findIndex p [] = None"
| "findIndex p (x # xs) =
     (if p x then Some 0 else map_option Suc (findIndex p xs))"

text \<open>
  Assigning to a field of the object that \<^verbatim>\<open>xs.find(p)\<close> returned: the first
  element satisfying \<open>p\<close> is changed in place.
\<close>

fun update_first :: "('a \<Rightarrow> bool) \<Rightarrow> ('a \<Rightarrow> 'a) \<Rightarrow> 'a list \<Rightarrow> 'a list" where
  "update_first p f [] = []"
| "update_first p f (x # xs) = (if p x then f x # xs else x # update_first p f xs)"

section \<open>The embedded frame's document\<close>

text \<open>
  The document of the embedded frame, as the agent queries it: its HTML elements in tree
  order, each with the properties the code reads. \<open>inside\<close> is the number of elements
  that follow an element and are its descendants. A duck-typed property such as
  \<^verbatim>\<open>el.value\<close> is absent, a string or a number (\<^verbatim>\<open>li.value\<close>).
\<close>

datatype jsprop = Undefined | Str jsstring | Num

record select_option =
  opt_text :: jsstring
  opt_value :: jsstring

record element =
  tagName :: jsstring
  elem_id :: jsstring
  onclick :: bool
  textContent :: jsstring
  elem_value :: jsprop
  placeholder :: jsprop
  htmlFor :: jsstring
  options :: "select_option list"
  inside :: nat

type_synonym document = "element list"

datatype frame_content = SameOrigin document | CrossOrigin

record iframe =
  src :: jsstring
  content :: frame_content

section \<open>Platform functions\<close>

text \<open>
  Functions of the browser that the code calls and that are not part of the repository:
  \<^item> \<open>URL_href s\<close> is \<^verbatim>\<open>new URL(s).href\<close>, \<open>None\<close> when the constructor throws;
  \<^item> \<open>toLowerCase\<close> is \<^verbatim>\<open>String.prototype.toLowerCase\<close>;
  \<^item> \<open>querySelector d sel\<close> is the index of \<^verbatim>\<open>d.querySelector(sel)\<close>, \<open>None\<close> when it
    returns \<^verbatim>\<open>null\<close> or throws on a malformed selector (the code catches that and goes on);
  \<^item> \<open>value_setter el v\<close> is the element after \<^verbatim>\<open>el.value = v\<close>, or the exception it raises.
\<close>

record platform =
  URL_href :: "jsstring \<Rightarrow> jsstring option"
  toLowerCase :: "jsstring \<Rightarrow> jsstring"
  querySelector :: "document \<Rightarrow> jsstring \<Rightarrow> nat option"
  value_setter :: "element \<Rightarrow> jsstring \<Rightarrow> error + element"

section \<open>UrlResolver\<close>

subsection \<open>Regular expressions\<close>

text \<open>
  The patterns of the code, matched by derivatives. \<open>test_from_start r s\<close> is a regular
  expression that starts with \<^verbatim>\<open>^\<close> and has no \<^verbatim>\<open>$\<close>, tested on \<open>s\<close>: some prefix of \<open>s\<close>
  matches \<open>r\<close>.
\<close>

datatype rx =
    Zero
  | One
  | Sym "code_unit \<Rightarrow> bool"
  | Alt rx rx
  | Cat rx rx
  | Star rx

definition Plus :: "rx \<Rightarrow> rx" where
  "Plus r = Cat r (Star r)"

fun nullable :: "rx \<Rightarrow> bool" where
  "nullable Zero = False"
| "nullable One = True"
| "nullable (Sym p) = False"
| "nullable (Alt r s) = (nullable r \<or> nullable s)"
| "nullable (Cat r s) = (nullable r \<and> nullable s)"
| "nullable (Star r) = True"

fun deriv :: "code_unit \<Rightarrow> rx \<Rightarrow> rx" where
  "deriv c Zero = Zero"
| "deriv c One = Zero"
| "deriv c (Sym p) = (if p c then One else Zero)"
| "deriv c (Alt r s) = Alt (deriv c r) (deriv c s)"
| "deriv c (Cat r s) =
     (if nullable r then Alt (Cat (deriv c r) s) (deriv c s) else Cat (deriv c r) s)"
| "deriv c (Star r) = Cat (deriv c r) (Star r)"

fun test_from_start :: "rx \<Rightarrow> jsstring \<Rightarrow> bool" where
  "test_from_start r [] = nullable r"
| "test_from_start r (c # cs) = (nullable r \<or> test_from_start (deriv c r) cs)"

text \<open>\<^verbatim>\<open>\w\<close> without the unicode flag: ASCII letters, digits and the underscore.\<close>

definition wordChar :: "code_unit \<Rightarrow> bool" where
  "wordChar c \<longleftrightarrow>
     (0x41 \<le> c \<and> c \<le> 0x5A) \<or> (0x61 \<le> c \<and> c \<le> 0x7A) \<or> (0x30 \<le> c \<and> c \<le> 0x39) \<or> c = 0x5F"

text \<open>\<^verbatim>\<open>[\w-]\<close>, \<^verbatim>\<open>[\w-]+\<close> and \<^verbatim>\<open>/^[\w-]+(\.[\w-]+)+/\<close>.\<close>

definition tokenChar :: "code_unit \<Rightarrow> bool" where
  "tokenChar c \<longleftrightarrow> wordChar c \<or> c = 0x2D"

definition domainToken :: rx where
  "domainToken = Plus (Sym tokenChar)"

definition domainPattern :: rx where
  "domainPattern = Cat domainToken (Plus (Cat (Sym (\<lambda>c. c = 0x2E)) domainToken))"

subsection \<open>\<^verbatim>\<open>encodeURIComponent\<close>\<close>

text \<open>
  Code units of \<^verbatim>\<open>A-Z a-z 0-9 - _ . ! ~ * ' ( )\<close> are kept. Any other code point is
  written as the \<^verbatim>\<open>%XX\<close> of its UTF-8 octets; a surrogate that is not part of a pair
  raises URIError.
\<close>

definition uriUnescaped :: "code_unit \<Rightarrow> bool" where
  "uriUnescaped c \<longleftrightarrow>
     wordChar c \<or> c = 0x2D \<or> c = 0x2E \<or> c = 0x21 \<or> c = 0x7E \<or> c = 0x2A \<or>
     c = 0x27 \<or> c = 0x28 \<or> c = 0x29"

definition isLeadSurrogate :: "code_unit \<Rightarrow> bool" where
  "isLeadSurrogate c \<longleftrightarrow> 0xD800 \<le> c \<and> c \<le> 0xDBFF"

definition isTrailSurrogate :: "code_unit \<Rightarrow> bool" where
  "isTrailSurrogate c \<longleftrightarrow> 0xDC00 \<le> c \<and> c \<le> 0xDFFF"

definition pairToCodePoint :: "code_unit \<Rightarrow> code_unit \<Rightarrow> nat" where
  "pairToCodePoint lead trail = (unat lead - 0xD800) * 0x400 + (unat trail - 0xDC00) + 0x10000"

definition utf8 :: "nat \<Rightarrow> nat list" where
  "utf8 cp =
     (if cp < 0x80 then [cp]
      else if cp < 0x800 then [0xC0 + cp div 0x40, 0x80 + cp mod 0x40]
      else if cp < 0x10000 then
        [0xE0 + cp div 0x1000, 0x80 + cp div 0x40 mod 0x40, 0x80 + cp mod 0x40]
      else
        [0xF0 + cp div 0x40000, 0x80 + cp div 0x1000 mod 0x40,
         0x80 + cp div 0x40 mod 0x40, 0x80 + cp mod 0x40])"

definition hexDigit :: "nat \<Rightarrow> code_unit" where
  "hexDigit d = (if d < 10 then of_nat (0x30 + d) else of_nat (0x41 + (d - 10)))"

definition percentOctet :: "nat \<Rightarrow> jsstring" where
  "percentOctet b = [0x25, hexDigit (b div 16), hexDigit (b mod 16)]"

fun encodeURIComponent :: "jsstring \<Rightarrow> error + jsstring" where
  "encodeURIComponent [] = Inr []"
| "encodeURIComponent (c # cs) =
     (if uriUnescaped c then map_sum id ((#) c) (encodeURIComponent cs)
      else if isTrailSurrogate c then Inl URIError
      else if isLeadSurrogate c then
        (case cs of
           [] \<Rightarrow> Inl URIError
         | d # ds \<Rightarrow>
             if isTrailSurrogate d then
               map_sum id ((@) (concat (map percentOctet (utf8 (pairToCodePoint c d)))))
                 (encodeURIComponent ds)
             else Inl URIError)
      else map_sum id ((@) (concat (map percentOctet (utf8 (unat c)))))
             (encodeURIComponent cs))"

subsection \<open>\<^verbatim>\<open>BrowserCore.parseUrl\<close>\<close>

definition parseUrl :: "platform \<Rightarrow> jsstring \<Rightarrow> error + jsstring" where
  "parseUrl P input =
     (case URL_href P input of
        Some href \<Rightarrow> Inr href
      | None \<Rightarrow>
          if test_from_start domainPattern input then Inr (js ''https://'' @ input)
          else map_sum id ((@) (js ''https://www.google.com/search?q=''))
                 (encodeURIComponent input))"

section \<open>BrowserCore\<close>

text \<open>
  A tab identifier is the string \<^verbatim>\<open>tab-n\<close>, \<open>n\<close> the value of the counter when the tab was
  made; \<open>TabId n\<close> stands for it. A tab's \<^verbatim>\<open>url\<close> is \<open>None\<close> for \<^verbatim>\<open>null\<close> and
  \<^verbatim>\<open>undefined\<close>. Its \<^verbatim>\<open>favicon\<close> is always \<^verbatim>\<open>null\<close> and left out.
\<close>

datatype tabid = TabId nat

record tab =
  tab_id :: tabid
  title :: jsstring
  url :: "jsstring option"
  isHome :: bool

record nav_history =
  stack :: "jsstring list"
  index :: int

datatype load_state = Home | Loading | Loaded | Failed jsstring

text \<open>
  The BrowserCore object, with the parts of the host page it drives: the address bar
  (\<^verbatim>\<open>#url-input\<close>), the embedded frame (\<^verbatim>\<open>#page-frame\<close>, \<open>None\<close> when the page has no such
  element) and what the page shows in place of the frame's content (\<open>view\<close>: the welcome
  page, the loading overlay, the loaded frame or the error overlay). The other elements
  of the host page are taken to exist. \<^verbatim>\<open>renderTabs\<close> and \<^verbatim>\<open>updateNavigationButtons\<close> redraw
  the tab strip and the buttons from this state and change nothing of it. The 15 s load
  timer and the frame's load and error events, which set the title of the active tab and
  the overlay shown, are not modelled.
\<close>

record browser =
  tabs :: "tab list"
  activeTabId :: "tabid option"
  history :: "tabid \<rightharpoonup> nav_history"
  tabIdCounter :: nat
  address_bar :: jsstring
  page_frame :: "iframe option"
  view :: load_state

definition new_BrowserCore :: "iframe option \<Rightarrow> browser" where
  "new_BrowserCore fr =
     \<lparr>tabs = [], activeTabId = None, history = Map.empty, tabIdCounter = 0,
      address_bar = [], page_frame = fr, view = Home\<rparr>"

definition getActiveTab :: "browser \<Rightarrow> tab option" where
  "getActiveTab s =
     (case activeTabId s of
        None \<Rightarrow> None
      | Some i \<Rightarrow> find (\<lambda>t. tab_id t = i) (tabs s))"

text \<open>\<^verbatim>\<open>activeTab.f = v\<close>: the object that \<^verbatim>\<open>getActiveTab\<close> returned is changed.\<close>

definition update_active :: "(tab \<Rightarrow> tab) \<Rightarrow> browser \<Rightarrow> browser" where
  "update_active f s =
     (case activeTabId s of
        None \<Rightarrow> s
      | Some i \<Rightarrow> s\<lparr>tabs := update_first (\<lambda>t. tab_id t = i) f (tabs s)\<rparr>)"

text \<open>\<^verbatim>\<open>u || ''\<close> and \<^verbatim>\<open>String(u)\<close> for a string that may be \<^verbatim>\<open>null\<close> or \<^verbatim>\<open>undefined\<close>.\<close>

definition or_empty :: "jsstring option \<Rightarrow> jsstring" where
  "or_empty u = (case u of None \<Rightarrow> [] | Some v \<Rightarrow> v)"

definition to_string :: "jsstring option \<Rightarrow> jsstring" where
  "to_string u = (case u of None \<Rightarrow> js ''undefined'' | Some v \<Rightarrow> v)"

definition truthy :: "jsstring option \<Rightarrow> bool" where
  "truthy u = (case u of None \<Rightarrow> False | Some v \<Rightarrow> v \<noteq> [])"

definition updateAddressBar :: "jsstring option \<Rightarrow> browser \<Rightarrow> browser" where
  "updateAddressBar u s = s\<lparr>address_bar := or_empty u\<rparr>"

text \<open>\<^verbatim>\<open>corsProxy\<close> is always the empty string, so the frame gets the URL itself.\<close>

definition loadUrl :: "jsstring option \<Rightarrow> browser \<Rightarrow> browser" where
  "loadUrl u s =
     (case page_frame s of
        None \<Rightarrow> s
      | Some fr \<Rightarrow> s\<lparr>view := Loading, page_frame := Some (fr\<lparr>src := to_string u\<rparr>)\<rparr>)"

definition showWelcomePage :: "browser \<Rightarrow> browser" where
  "showWelcomePage s = s\<lparr>view := Home\<rparr>"

definition switchToTab :: "tabid \<Rightarrow> browser \<Rightarrow> browser" where
  "switchToTab i s =
     (case find (\<lambda>t. tab_id t = i) (tabs s) of
        None \<Rightarrow> s
      | Some t \<Rightarrow>
          let s1 = updateAddressBar (Some (or_empty (url t))) (s\<lparr>activeTabId := Some i\<rparr>)
          in if isHome t \<or> \<not> truthy (url t) then showWelcomePage s1 else loadUrl (url t) s1)"

text \<open>Lines 994 to 996 of \<^verbatim>\<open>navigate\<close>: the new URL replaces the forward history.\<close>

definition push_url :: "jsstring \<Rightarrow> nav_history \<Rightarrow> nav_history" where
  "push_url u h =
     (let st = slice0 (stack h) (index h + 1) @ [u]
      in \<lparr>stack = st, index = int (length st) - 1\<rparr>)"

text \<open>
  The result of \<open>navigate\<close> says whether an exception escaped (\<^verbatim>\<open>encodeURIComponent\<close>
  raising URIError inside \<open>parseUrl\<close>), beside the state it leaves.
\<close>

definition navigate :: "platform \<Rightarrow> jsstring \<Rightarrow> browser \<Rightarrow> (error + unit) \<times> browser" where
  "navigate P input s =
     (if input = [] \<or> trim input = [] then (Inr (), s)
      else
        case parseUrl P (trim input) of
          Inl e \<Rightarrow> (Inl e, s)
        | Inr u \<Rightarrow>
            (case getActiveTab s of
               None \<Rightarrow> (Inr (), s)
             | Some activeTab \<Rightarrow>
                 let s1 = update_active
                            (\<lambda>t. t\<lparr>url := Some u, isHome := False, title := js ''Loading...''\<rparr>) s;
                     s2 = (case history s1 (tab_id activeTab) of
                             None \<Rightarrow> s1
                           | Some h \<Rightarrow>
                               s1\<lparr>history := (history s1)(tab_id activeTab \<mapsto> push_url u h)\<rparr>)
                 in (Inr (), loadUrl (Some u) (updateAddressBar (Some u) s2))))"

definition createNewTab :: "platform \<Rightarrow> jsstring option \<Rightarrow> browser \<Rightarrow> (error + tabid) \<times> browser" where
  "createNewTab P u s =
     (let n = tabIdCounter s + 1;
          tabId = TabId n;
          t = \<lparr>tab_id = tabId, title = js ''New Tab'', url = u, isHome = \<not> truthy u\<rparr>;
          s1 = s\<lparr>tabIdCounter := n, tabs := tabs s @ [t],
                history := (history s)(tabId \<mapsto> \<lparr>stack = [], index = - 1\<rparr>)\<rparr>;
          s2 = switchToTab tabId s1
      in if truthy u then
           (case navigate P (or_empty u) s2 of
              (Inl e, s3) \<Rightarrow> (Inl e, s3)
            | (Inr _, s3) \<Rightarrow> (Inr tabId, s3))
         else (Inr tabId, s2))"

definition closeTab :: "platform \<Rightarrow> tabid \<Rightarrow> browser \<Rightarrow> browser" where
  "closeTab P tabId s =
     (case findIndex (\<lambda>t. tab_id t = tabId) (tabs s) of
        None \<Rightarrow> s
      | Some i \<Rightarrow>
          let s1 = s\<lparr>tabs := take i (tabs s) @ drop (Suc i) (tabs s),
                    history := (history s)(tabId := None)\<rparr>
          in if length (tabs s1) = 0 then snd (createNewTab P None s1)
             else if activeTabId s1 = Some tabId then
               switchToTab (tab_id (tabs s1 ! min i (length (tabs s1) - 1))) s1
             else s1)"

definition goBack :: "browser \<Rightarrow> browser" where
  "goBack s =
     (case getActiveTab s of
        None \<Rightarrow> s
      | Some activeTab \<Rightarrow>
          (case history s (tab_id activeTab) of
             None \<Rightarrow> s
           | Some h \<Rightarrow>
               if index h > 0 then
                 let h1 = h\<lparr>index := index h - 1\<rparr>;
                     u = js_index (stack h1) (index h1);
                     s1 = s\<lparr>history := (history s)(tab_id activeTab \<mapsto> h1)\<rparr>;
                     s2 = update_active (\<lambda>t. t\<lparr>url := u\<rparr>) s1
                 in loadUrl u (updateAddressBar u s2)
               else s))"

definition goForward :: "browser \<Rightarrow> browser" where
  "goForward s =
     (case getActiveTab s of
        None \<Rightarrow> s
      | Some activeTab \<Rightarrow>
          (case history s (tab_id activeTab) of
             None \<Rightarrow> s
           | Some h \<Rightarrow>
               if index h < int (length (stack h)) - 1 then
                 let h1 = h\<lparr>index := index h + 1\<rparr>;
                     u = js_index (stack h1) (index h1);
                     s1 = s\<lparr>history := (history s)(tab_id activeTab \<mapsto> h1)\<rparr>;
                     s2 = update_active (\<lambda>t. t\<lparr>url := u\<rparr>) s1
                 in loadUrl u (updateAddressBar u s2)
               else s))"

definition reload :: "browser \<Rightarrow> browser" where
  "reload s =
     (case getActiveTab s of
        None \<Rightarrow> s
      | Some activeTab \<Rightarrow> if truthy (url activeTab) then loadUrl (url activeTab) s else s)"

definition goHome :: "browser \<Rightarrow> browser" where
  "goHome s =
     (case getActiveTab s of
        None \<Rightarrow> s
      | Some activeTab \<Rightarrow>
          showWelcomePage
            (updateAddressBar (Some [])
              (update_active (\<lambda>t. t\<lparr>url := None, isHome := True, title := js ''New Tab''\<rparr>) s)))"

text \<open>\<^verbatim>\<open>init\<close> makes the first tab.\<close>

definition init :: "platform \<Rightarrow> browser \<Rightarrow> browser" where
  "init P s = snd (createNewTab P None s)"

subsection \<open>Sequences of operations\<close>

datatype operation =
    Navigate jsstring
  | GoBack
  | GoForward
  | CreateNewTab "jsstring option"
  | CloseTab tabid
  | SwitchToTab tabid
  | Reload
  | GoHome

fun apply_operation :: "platform \<Rightarrow> browser \<Rightarrow> operation \<Rightarrow> browser" where
  "apply_operation P s (Navigate input) = snd (navigate P input s)"
| "apply_operation P s GoBack = goBack s"
| "apply_operation P s GoForward = goForward s"
| "apply_operation P s (CreateNewTab u) = snd (createNewTab P u s)"
| "apply_operation P s (CloseTab i) = closeTab P i s"
| "apply_operation P s (SwitchToTab i) = switchToTab i s"
| "apply_operation P s Reload = reload s"
| "apply_operation P s GoHome = goHome s"

definition run :: "platform \<Rightarrow> browser \<Rightarrow> operation list \<Rightarrow> browser" where
  "run P s ops = foldl (apply_operation P) s ops"

section \<open>Agent\<close>

text \<open>
  An action is the object \<^verbatim>\<open>{type, target, value, direction, url}\<close> that \<^verbatim>\<open>parseCommand\<close>
  builds: \<open>Type v t\<close> and \<open>Select v t\<close> carry the value \<open>v\<close> and the target \<open>t\<close>. An action
  without a target has \<^verbatim>\<open>action.target === undefined\<close>.
\<close>

datatype direction = Up | Down | Top | Bottom

datatype action =
    Click jsstring
  | Type jsstring jsstring
  | Scroll direction
  | NavigateTo jsstring
  | Select jsstring jsstring

fun action_target :: "action \<Rightarrow> jsstring option" where
  "action_target (Click t) = Some t"
| "action_target (Type v t) = Some t"
| "action_target (Select v t) = Some t"
| "action_target (Scroll d) = None"
| "action_target (NavigateTo u) = None"

text \<open>
  What the agent does to the frame, beside changing a \<^verbatim>\<open>value\<close>, is recorded in order:
  scrolling, \<^verbatim>\<open>click()\<close>, \<^verbatim>\<open>focus()\<close> and \<^verbatim>\<open>dispatchEvent\<close> on the element of a given index.
\<close>

datatype effect =
    ScrollBy int int
  | ScrollTo int int
  | ScrollToBottom
  | ClickOn nat
  | Focus nat
  | DispatchEvent nat jsstring

datatype agent_status = Idle | Running

text \<open>
  The page as the agent sees it: the state of \<^verbatim>\<open>window.browserCore\<close> with the host page
  (\<open>page\<close>), whether \<^verbatim>\<open>window.browserCore\<close> is set (\<open>core_installed\<close>), the agent's
  \<^verbatim>\<open>isRunning\<close> flag, the status shown, and the effects so far.
\<close>

record world =
  page :: browser
  core_installed :: bool
  isRunning :: bool
  status :: agent_status
  effects :: "effect list"

text \<open>
  An entry of \<^verbatim>\<open>results\<close>: \<^verbatim>\<open>{action, success}\<close>, or \<^verbatim>\<open>{action, success: false, error}\<close>
  with the exception that was caught.
\<close>

record action_result =
  action_of :: action
  success :: bool
  failure :: "error option"

subsection \<open>Finding the element\<close>

text \<open>\<^verbatim>\<open>s.includes(t)\<close>: \<open>t\<close> occurs in \<open>s\<close> as a contiguous run of code units.\<close>

fun startsWith :: "jsstring \<Rightarrow> jsstring \<Rightarrow> bool" where
  "startsWith s [] = True"
| "startsWith [] (c # t) = False"
| "startsWith (d # s) (c # t) = (d = c \<and> startsWith s t)"

fun js_includes :: "jsstring \<Rightarrow> jsstring \<Rightarrow> bool" where
  "js_includes [] t = (t = [])"
| "js_includes (d # s) t = (startsWith (d # s) t \<or> js_includes s t)"

text \<open>\<^verbatim>\<open>xs.find(p)\<close> for a callback that may throw: the exception ends the search.\<close>

fun find_throwing :: "('a \<Rightarrow> error + bool) \<Rightarrow> 'a list \<Rightarrow> error + 'a option" where
  "find_throwing p [] = Inr None"
| "find_throwing p (x # xs) =
     (case p x of
        Inl e \<Rightarrow> Inl e
      | Inr found \<Rightarrow> if found then Inr (Some x) else find_throwing p xs)"

text \<open>\<^verbatim>\<open>doc.getElementById(i)\<close>: the first element in tree order with that non-empty id.\<close>

definition getElementById :: "document \<Rightarrow> jsstring \<Rightarrow> nat option" where
  "getElementById doc i = (if i = [] then None else findIndex (\<lambda>el. elem_id el = i) doc)"

text \<open>
  \<^verbatim>\<open>try { element = doc.querySelector(target) } catch (e) { }\<close>; the platform's answer
  is an element of the document.
\<close>

definition querySelector_caught :: "platform \<Rightarrow> document \<Rightarrow> jsstring \<Rightarrow> nat option" where
  "querySelector_caught P doc sel =
     (case querySelector P doc sel of
        None \<Rightarrow> None
      | Some i \<Rightarrow> if i < length doc then Some i else None)"

text \<open>The elements that \<^verbatim>\<open>doc.querySelectorAll('a, button, input, [onclick]')\<close> selects.\<close>

definition textCandidate :: "element \<Rightarrow> bool" where
  "textCandidate el \<longleftrightarrow>
     tagName el = js ''A'' \<or> tagName el = js ''BUTTON'' \<or> tagName el = js ''INPUT'' \<or> onclick el"

text \<open>
  \<^verbatim>\<open>p?.toLowerCase().includes(target)\<close>: falsy for an absent property; a number has no
  \<^verbatim>\<open>toLowerCase\<close>, so the call raises TypeError.
\<close>

definition lowered_includes :: "platform \<Rightarrow> jsprop \<Rightarrow> jsstring \<Rightarrow> error + bool" where
  "lowered_includes P p target =
     (case p of
        Undefined \<Rightarrow> Inr False
      | Str s \<Rightarrow> Inr (js_includes (toLowerCase P s) target)
      | Num \<Rightarrow> Inl TypeError)"

text \<open>
  The callback of the search by text: \<^verbatim>\<open>textContent\<close>, then \<^verbatim>\<open>value\<close>, then
  \<^verbatim>\<open>placeholder\<close>, joined by \<^verbatim>\<open>||\<close>. An element's \<^verbatim>\<open>textContent\<close> is a string.
\<close>

definition text_matches :: "platform \<Rightarrow> jsstring \<Rightarrow> element \<Rightarrow> error + bool" where
  "text_matches P target el =
     (if js_includes (toLowerCase P (textContent el)) target then Inr True
      else case lowered_includes P (elem_value el) target of
        Inl e \<Rightarrow> Inl e
      | Inr found \<Rightarrow>
          if found then Inr True else lowered_includes P (placeholder el) target)"

definition find_by_text :: "platform \<Rightarrow> document \<Rightarrow> jsstring \<Rightarrow> error + nat option" where
  "find_by_text P doc target =
     find_throwing (\<lambda>i. text_matches P target (doc ! i))
       (filter (\<lambda>i. textCandidate (doc ! i)) [0..<length doc])"

text \<open>The elements that \<^verbatim>\<open>label.querySelector('input, textarea, select')\<close> looks for.\<close>

definition labelledControl :: "element \<Rightarrow> bool" where
  "labelledControl el \<longleftrightarrow>
     tagName el = js ''INPUT'' \<or> tagName el = js ''TEXTAREA'' \<or> tagName el = js ''SELECT''"

text \<open>
  The search by label stops at the first \<^verbatim>\<open>label\<close> whose text contains the target and
  takes \<^verbatim>\<open>doc.getElementById(label.htmlFor)\<close> or else the first control inside the label.
\<close>

definition find_by_label :: "platform \<Rightarrow> document \<Rightarrow> jsstring \<Rightarrow> nat option" where
  "find_by_label P doc target =
     (case find (\<lambda>l. js_includes (toLowerCase P (textContent (doc ! l))) target)
             (filter (\<lambda>l. tagName (doc ! l) = js ''LABEL'') [0..<length doc]) of
        None \<Rightarrow> None
      | Some l \<Rightarrow>
          (case getElementById doc (htmlFor (doc ! l)) of
             Some i \<Rightarrow> Some i
           | None \<Rightarrow>
               map_option (\<lambda>k. Suc l + k)
                 (findIndex labelledControl (take (inside (doc ! l)) (drop (Suc l) doc)))))"

text \<open>
  Lines 382 to 419 of \<^verbatim>\<open>executeIframeAction\<close>: the element for \<^verbatim>\<open>action.target\<close>, by id,
  by selector, by text, by label, each tried only when the ones before found nothing.
\<close>

definition find_element :: "platform \<Rightarrow> document \<Rightarrow> jsstring option \<Rightarrow> error + nat option" where
  "find_element P doc tgt =
     (if \<not> truthy tgt then Inr None
      else
        let target = toLowerCase P (or_empty tgt) in
        case getElementById doc target of
          Some i \<Rightarrow> Inr (Some i)
        | None \<Rightarrow>
            (case querySelector_caught P doc target of
               Some i \<Rightarrow> Inr (Some i)
             | None \<Rightarrow>
                 (case find_by_text P doc target of
                    Inl e \<Rightarrow> Inl e
                  | Inr (Some i) \<Rightarrow> Inr (Some i)
                  | Inr None \<Rightarrow> Inr (find_by_label P doc target))))"

subsection \<open>Executing one action\<close>

definition set_document :: "document \<Rightarrow> world \<Rightarrow> world" where
  "set_document doc w =
     w\<lparr>page := (page w)\<lparr>page_frame :=
          map_option (\<lambda>fr. fr\<lparr>content := SameOrigin doc\<rparr>) (page_frame (page w))\<rparr>\<rparr>"

definition add_effects :: "effect list \<Rightarrow> world \<Rightarrow> world" where
  "add_effects es w = w\<lparr>effects := effects w @ es\<rparr>"

text \<open>
  \<^verbatim>\<open>Array.from(element.options).find(...)\<close> of the \<^verbatim>\<open>select\<close> case: the first option whose
  lower-cased text or value contains the lower-cased \<^verbatim>\<open>action.value\<close>.
\<close>

definition matching_option :: "platform \<Rightarrow> jsstring \<Rightarrow> element \<Rightarrow> select_option option" where
  "matching_option P v el =
     find (\<lambda>opt. js_includes (toLowerCase P (opt_text opt)) (toLowerCase P v) \<or>
                 js_includes (toLowerCase P (opt_value opt)) (toLowerCase P v))
       (options el)"

text \<open>
  The \<^verbatim>\<open>switch\<close> of \<^verbatim>\<open>executeIframeAction\<close> on the element found, of index \<open>i\<close>. An
  exception of the \<^verbatim>\<open>value\<close> setter is caught by the enclosing \<^verbatim>\<open>try\<close>, after the
  \<^verbatim>\<open>focus()\<close>. A type without a case leaves the \<^verbatim>\<open>switch\<close> and returns \<^verbatim>\<open>false\<close>.
\<close>

fun perform :: "platform \<Rightarrow> action \<Rightarrow> document \<Rightarrow> nat \<Rightarrow> world \<Rightarrow> bool \<times> world" where
  "perform P (Click t) doc i w = (True, add_effects [ClickOn i] w)"
| "perform P (Type v t) doc i w =
     (case value_setter P (doc ! i) v of
        Inl e \<Rightarrow> (False, add_effects [Focus i] w)
      | Inr el \<Rightarrow>
          (True,
           add_effects [Focus i, DispatchEvent i (js ''input''), DispatchEvent i (js ''change'')]
             (set_document (doc[i := el]) w)))"
| "perform P (Select v t) doc i w =
     (if tagName (doc ! i) = js ''SELECT'' then
        (case matching_option P v (doc ! i) of
           None \<Rightarrow> (True, w)
         | Some opt \<Rightarrow>
             (True,
              add_effects [DispatchEvent i (js ''change'')]
                (set_document (doc[i := (doc ! i)\<lparr>elem_value := Str (opt_value opt)\<rparr>]) w)))
      else (True, w))"
| "perform P (Scroll d) doc i w = (False, w)"
| "perform P (NavigateTo u) doc i w = (False, w)"

text \<open>
  \<^verbatim>\<open>executeIframeAction(iframe, action)\<close>. A frame of another origin has no
  \<^verbatim>\<open>contentDocument\<close>: the code throws and catches its own error. No element found, for an
  action that is not a scroll, returns \<^verbatim>\<open>false\<close>; so does an exception of the search.
\<close>

definition executeIframeAction :: "platform \<Rightarrow> action \<Rightarrow> world \<Rightarrow> bool \<times> world" where
  "executeIframeAction P a w =
     (case page_frame (page w) of
        None \<Rightarrow> (False, w)
      | Some fr \<Rightarrow>
          (case content fr of
             CrossOrigin \<Rightarrow> (False, w)
           | SameOrigin doc \<Rightarrow>
               (case find_element P doc (action_target a) of
                  Inl e \<Rightarrow> (False, w)
                | Inr None \<Rightarrow> (False, w)
                | Inr (Some i) \<Rightarrow> perform P a doc i w)))"

fun scroll_effect :: "direction \<Rightarrow> effect" where
  "scroll_effect Up = ScrollBy 0 (- 300)"
| "scroll_effect Down = ScrollBy 0 300"
| "scroll_effect Top = ScrollTo 0 0"
| "scroll_effect Bottom = ScrollToBottom"

text \<open>Scrolling the window of a frame of another origin raises an exception, caught here.\<close>

definition executeScroll :: "direction \<Rightarrow> world \<Rightarrow> bool \<times> world" where
  "executeScroll d w =
     (case page_frame (page w) of
        None \<Rightarrow> (False, w)
      | Some fr \<Rightarrow>
          (case content fr of
             CrossOrigin \<Rightarrow> (False, w)
           | SameOrigin doc \<Rightarrow> (True, add_effects [scroll_effect d] w)))"

text \<open>\<^verbatim>\<open>executeNavigate\<close> has no \<^verbatim>\<open>try\<close>: an exception of \<^verbatim>\<open>navigate\<close> escapes.\<close>

definition executeNavigate :: "platform \<Rightarrow> jsstring \<Rightarrow> world \<Rightarrow> (error + bool) \<times> world" where
  "executeNavigate P u w =
     (if core_installed w then
        (case navigate P u (page w) of
           (Inl e, b) \<Rightarrow> (Inl e, w\<lparr>page := b\<rparr>)
         | (Inr _, b) \<Rightarrow> (Inr True, w\<lparr>page := b\<rparr>))
      else (Inr False, w))"

fun executeAction :: "platform \<Rightarrow> action \<Rightarrow> world \<Rightarrow> (error + bool) \<times> world" where
  "executeAction P (Scroll d) w = (case executeScroll d w of (r, w1) \<Rightarrow> (Inr r, w1))"
| "executeAction P (NavigateTo u) w = executeNavigate P u w"
| "executeAction P a w = (case executeIframeAction P a w of (r, w1) \<Rightarrow> (Inr r, w1))"

subsection \<open>Executing a list of actions\<close>

text \<open>
  The \<^verbatim>\<open>for\<close> loop of \<^verbatim>\<open>executeActions\<close>, \<open>results\<close> being the array built so far. The
  loop gives way to the rest of the page only in \<^verbatim>\<open>await this.delay(500)\<close>, after an action
  that returned; \<open>delay\<close> is what the page, the network and the user make of the state in
  that time. After an exception the loop goes on at once.
\<close>

fun actions_loop ::
  "platform \<Rightarrow> (world \<Rightarrow> world) \<Rightarrow> action list \<Rightarrow> action_result list \<Rightarrow> world \<Rightarrow>
     action_result list \<times> world" where
  "actions_loop P delay [] results w = (results, w)"
| "actions_loop P delay (a # as) results w =
     (case executeAction P a w of
        (Inr r, w1) \<Rightarrow>
          actions_loop P delay as
            (results @ [\<lparr>action_of = a, success = r, failure = None\<rparr>]) (delay w1)
      | (Inl e, w1) \<Rightarrow>
          actions_loop P delay as
            (results @ [\<lparr>action_of = a, success = False, failure = Some e\<rparr>]) w1)"

text \<open>\<^verbatim>\<open>executeActions\<close> returns \<^verbatim>\<open>undefined\<close> (\<open>None\<close>) when the agent is already running.\<close>

definition executeActions ::
  "platform \<Rightarrow> (world \<Rightarrow> world) \<Rightarrow> action list \<Rightarrow> world \<Rightarrow> action_result list option \<times> world" where
  "executeActions P delay actions w =
     (if isRunning w then (None, w)
      else
        case actions_loop P delay actions [] (w\<lparr>isRunning := True, status := Running\<rparr>) of
          (results, w1) \<Rightarrow> (Some results, w1\<lparr>isRunning := False, status := Idle\<rparr>))"

section \<open>Invariants and sample values\<close>

text \<open>
  The invariant of a tab's history: the index is in \<open>[-1, length - 1]\<close>, and is \<open>-1\<close>
  exactly for the empty stack.
\<close>

definition history_ok :: "nav_history \<Rightarrow> bool" where
  "history_ok h \<longleftrightarrow>
     - 1 \<le> index h \<and> index h \<le> int (length (stack h)) - 1 \<and> (index h = - 1 \<longleftrightarrow> stack h = [])"

definition histories_ok :: "browser \<Rightarrow> bool" where
  "histories_ok s \<longleftrightarrow> (\<forall>i h. history s i = Some h \<longrightarrow> history_ok h)"

text \<open>
  The invariant of the tab list: identifiers are distinct and none is beyond the counter.
\<close>

fun tab_number :: "tabid \<Rightarrow> nat" where
  "tab_number (TabId n) = n"

definition registry_ok :: "browser \<Rightarrow> bool" where
  "registry_ok s \<longleftrightarrow>
     distinct (map tab_id (tabs s)) \<and>
     (\<forall>t\<in>set (tabs s). tab_number (tab_id t) \<le> tabIdCounter s)"

text \<open>The state in which \<open>createNewTab\<close> leaves the new tab, before it navigates.\<close>

definition opened :: "jsstring option \<Rightarrow> browser \<Rightarrow> browser" where
  "opened u s =
     switchToTab (TabId (tabIdCounter s + 1))
       (s\<lparr>tabIdCounter := tabIdCounter s + 1,
          tabs := tabs s @ [\<lparr>tab_id = TabId (tabIdCounter s + 1), title = js ''New Tab'',
                            url = u, isHome = \<not> truthy u\<rparr>],
          history := (history s)(TabId (tabIdCounter s + 1) \<mapsto> \<lparr>stack = [], index = - 1\<rparr>)\<rparr>)"

text \<open>
  A platform to run the model on concrete inputs. \<open>ascii_toLowerCase\<close> is
  \<^verbatim>\<open>toLowerCase\<close> on strings of ASCII code units. \<open>sample_URL_href\<close> holds the two
  absolute URLs of the examples with their serialisation by \<^verbatim>\<open>new URL(s).href\<close>
  (a URL without a path gets the path \<^verbatim>\<open>/\<close>); the other inputs of the examples have no
  scheme, and for them the constructor throws. \<open>type_selector\<close> is \<^verbatim>\<open>querySelector\<close> on a
  selector that is a single tag name. The sample \<open>value_setter\<close> is that of a text control.
\<close>

definition ascii_toLowerCase :: "jsstring \<Rightarrow> jsstring" where
  "ascii_toLowerCase s = map (\<lambda>c. if 0x41 \<le> c \<and> c \<le> 0x5A then c + 0x20 else c) s"

definition sample_URL_href :: "jsstring \<Rightarrow> jsstring option" where
  "sample_URL_href s =
     (if s = js ''http://x.com/a'' then Some (js ''http://x.com/a'')
      else if s = js ''http://x.com'' then Some (js ''http://x.com/'')
      else None)"

definition asciiLetter :: "code_unit \<Rightarrow> bool" where
  "asciiLetter c \<longleftrightarrow> (0x41 \<le> c \<and> c \<le> 0x5A) \<or> (0x61 \<le> c \<and> c \<le> 0x7A)"

definition type_selector :: "document \<Rightarrow> jsstring \<Rightarrow> nat option" where
  "type_selector d sel =
     (if sel \<noteq> [] \<and> list_all asciiLetter sel
      then findIndex (\<lambda>e. ascii_toLowerCase (tagName e) = ascii_toLowerCase sel) d
      else None)"

definition sample_platform :: platform where
  "sample_platform =
     \<lparr>URL_href = sample_URL_href, toLowerCase = ascii_toLowerCase,
      querySelector = type_selector,
      value_setter = (\<lambda>e v. Inr (e\<lparr>elem_value := Str v\<rparr>))\<rparr>"

definition sample_frame :: iframe where
  "sample_frame = \<lparr>src = js ''about:blank'', content = CrossOrigin\<rparr>"

definition sample_browser :: browser where
  "sample_browser =
     \<lparr>tabs = [\<lparr>tab_id = TabId 1, title = js ''B'', url = Some (js ''https://b.example/''),
               isHome = False\<rparr>,
             \<lparr>tab_id = TabId 2, title = js ''New Tab'', url = None, isHome = True\<rparr>],
      activeTabId = Some (TabId 1),
      history = [TabId 1 \<mapsto> \<lparr>stack = [js ''https://a.example/'', js ''https://b.example/'',
                                       js ''https://c.example/''], index = 1\<rparr>,
                 TabId 2 \<mapsto> \<lparr>stack = [], index = - 1\<rparr>],
      tabIdCounter = 2, address_bar = js ''https://b.example/'',
      page_frame = Some sample_frame, view = Loaded\<rparr>"

text \<open>
  A document for the examples:
  \<^verbatim>\<open><html><head></head><body><button id="Submit">Send</button>\<close>
  \<^verbatim>\<open><button id="other">Submit form</button><textarea placeholder="Your comment"></textarea>\<close>
  \<^verbatim>\<open><select id="country"><option value="fr">France</option>\<close>
  \<^verbatim>\<open><option value="de">Germany</option></select></body></html>\<close>
\<close>

definition plain_element :: "jsstring \<Rightarrow> jsstring \<Rightarrow> jsstring \<Rightarrow> nat \<Rightarrow> element" where
  "plain_element tag i txt n =
     \<lparr>tagName = tag, elem_id = i, onclick = False, textContent = txt, elem_value = Undefined,
      placeholder = Undefined, htmlFor = [], options = [], inside = n\<rparr>"

definition sample_document :: document where
  "sample_document =
     [plain_element (js ''HTML'') [] (js ''SendSubmit formFranceGermany'') 8,
      plain_element (js ''HEAD'') [] [] 0,
      plain_element (js ''BODY'') [] (js ''SendSubmit formFranceGermany'') 6,
      (plain_element (js ''BUTTON'') (js ''Submit'') (js ''Send'') 0)\<lparr>elem_value := Str []\<rparr>,
      (plain_element (js ''BUTTON'') (js ''other'') (js ''Submit form'') 0)
        \<lparr>elem_value := Str []\<rparr>,
      (plain_element (js ''TEXTAREA'') [] [] 0)
        \<lparr>elem_value := Str [], placeholder := Str (js ''Your comment'')\<rparr>,
      (plain_element (js ''SELECT'') (js ''country'') (js ''FranceGermany'') 2)
        \<lparr>elem_value := Str (js ''fr''),
         options := [\<lparr>opt_text = js ''France'', opt_value = js ''fr''\<rparr>,
                     \<lparr>opt_text = js ''Germany'', opt_value = js ''de''\<rparr>]\<rparr>,
      (plain_element (js ''OPTION'') [] (js ''France'') 0)\<lparr>elem_value := Str (js ''fr'')\<rparr>,
      (plain_element (js ''OPTION'') [] (js ''Germany'') 0)\<lparr>elem_value := Str (js ''de'')\<rparr>]"

definition sample_world :: world where
  "sample_world =
     \<lparr>page = sample_browser\<lparr>page_frame :=
               Some \<lparr>src = js ''https://b.example/'', content = SameOrigin sample_document\<rparr>\<rparr>,
      core_installed = True, isRunning = False, status = Idle, effects = []\<rparr>"

text \<open>
  What the loop of \<open>executeActions\<close> records for an action, given what \<open>executeAction\<close>
  returned or raised, and the state in which the loop goes on to the next action.
\<close>

definition result_of :: "action \<Rightarrow> error + bool \<Rightarrow> action_result" where
  "result_of a r =
     (case r of
        Inr b \<Rightarrow> \<lparr>action_of = a, success = b, failure = None\<rparr>
      | Inl e \<Rightarrow> \<lparr>action_of = a, success = False, failure = Some e\<rparr>)"

definition world_after :: "platform \<Rightarrow> (world \<Rightarrow> world) \<Rightarrow> world \<Rightarrow> action \<Rightarrow> world" where
  "world_after P delay w a =
     (case executeAction P a w of
        (Inr r, w1) \<Rightarrow> delay w1
      | (Inl e, w1) \<Rightarrow> w1)"

text \<open>
  The language of a regular expression, to say what \<open>test_from_start\<close> decides.
\<close>

inductive_set star :: "jsstring set \<Rightarrow> jsstring set" for A :: "jsstring set" where
  star_empty: "[] \<in> star A"
| star_more: "u \<in> A \<Longrightarrow> v \<in> star A \<Longrightarrow> u @ v \<in> star A"

fun lang :: "rx \<Rightarrow> jsstring set" where
  "lang Zero = {}"
| "lang One = {[]}"
| "lang (Sym p) = {[c] | c. p c}"
| "lang (Alt r s) = lang r \<union> lang s"
| "lang (Cat r s) = {u @ v | u v. u \<in> lang r \<and> v \<in> lang s}"
| "lang (Star r) = star (lang r)"

text \<open>
  The input begins with a token, a dot and one more token character: some prefix of it
  has the shape \<^verbatim>\<open>token(.token)+\<close>.
\<close>

definition has_domain_prefix :: "jsstring \<Rightarrow> bool" where
  "has_domain_prefix s \<longleftrightarrow>
     (\<exists>tok c rest. s = tok @ 0x2E # c # rest \<and> tok \<noteq> [] \<and> (\<forall>x\<in>set tok. tokenChar x) \<and>
        tokenChar c)"

text \<open>A string without a lone surrogate: every surrogate is part of a pair.\<close>

fun well_formed :: "jsstring \<Rightarrow> bool" where
  "well_formed [] = True"
| "well_formed (c # cs) =
     (if isLeadSurrogate c then
        (case cs of [] \<Rightarrow> False | d # ds \<Rightarrow> isTrailSurrogate d \<and> well_formed ds)
      else \<not> isTrailSurrogate c \<and> well_formed cs)"

section \<open>Evaluation\<close>

lemmas string_defs = js_def trim_def isWhiteSpace_def
lemmas url_defs = parseUrl_def sample_platform_def sample_URL_href_def domainPattern_def
  domainToken_def tokenChar_def Plus_def wordChar_def uriUnescaped_def isLeadSurrogate_def
  isTrailSurrogate_def pairToCodePoint_def utf8_def hexDigit_def percentOctet_def
lemmas browser_defs = new_BrowserCore_def getActiveTab_def update_active_def or_empty_def
  to_string_def truthy_def updateAddressBar_def loadUrl_def showWelcomePage_def
  switchToTab_def push_url_def slice0_def js_index_def navigate_def createNewTab_def closeTab_def goBack_def
  goForward_def reload_def goHome_def run_def Let_def

lemmas agent_defs = getElementById_def querySelector_caught_def textCandidate_def
  lowered_includes_def text_matches_def find_by_text_def labelledControl_def find_by_label_def
  find_element_def set_document_def add_effects_def matching_option_def executeIframeAction_def
  executeScroll_def executeNavigate_def executeActions_def ascii_toLowerCase_def
  asciiLetter_def type_selector_def sample_document_def plain_element_def sample_world_def sample_browser_def

section \<open>The history invariant\<close>

lemma loadUrl_fields [simp]:
  "tabs (loadUrl u s) = tabs s" "activeTabId (loadUrl u s) = activeTabId s"
  "history (loadUrl u s) = history s" "tabIdCounter (loadUrl u s) = tabIdCounter s"
  "address_bar (loadUrl u s) = address_bar s"
  by (simp_all add: loadUrl_def split: option.split)

lemma updateAddressBar_fields [simp]:
  "tabs (updateAddressBar u s) = tabs s" "activeTabId (updateAddressBar u s) = activeTabId s"
  "history (updateAddressBar u s) = history s"
  "tabIdCounter (updateAddressBar u s) = tabIdCounter s"
  "page_frame (updateAddressBar u s) = page_frame s" "view (updateAddressBar u s) = view s"
  by (simp_all add: updateAddressBar_def)

lemma showWelcomePage_fields [simp]:
  "tabs (showWelcomePage s) = tabs s" "activeTabId (showWelcomePage s) = activeTabId s"
  "history (showWelcomePage s) = history s"
  "tabIdCounter (showWelcomePage s) = tabIdCounter s"
  by (simp_all add: showWelcomePage_def)

lemma update_active_fields [simp]:
  "activeTabId (update_active f s) = activeTabId s"
  "history (update_active f s) = history s"
  "tabIdCounter (update_active f s) = tabIdCounter s"
  "page_frame (update_active f s) = page_frame s" "view (update_active f s) = view s"
  "address_bar (update_active f s) = address_bar s"
  by (simp_all add: update_active_def split: option.split)

lemma switchToTab_fields [simp]:
  "tabs (switchToTab i s) = tabs s"
  "history (switchToTab i s) = history s"
  "tabIdCounter (switchToTab i s) = tabIdCounter s"
  by (simp_all add: switchToTab_def Let_def split: option.split)

lemma history_ok_push_url: "history_ok (push_url u h)"
  by (simp add: history_ok_def push_url_def Let_def)

lemma histories_ok_upd:
  "histories_ok s \<Longrightarrow> history_ok h \<Longrightarrow> history s' = (history s)(i \<mapsto> h) \<Longrightarrow> histories_ok s'"
  by (simp add: histories_ok_def)

lemma histories_ok_same:
  "histories_ok s \<Longrightarrow> history s' = history s \<Longrightarrow> histories_ok s'"
  by (simp add: histories_ok_def)

lemma histories_ok_navigate: "histories_ok s \<Longrightarrow> histories_ok (snd (navigate P input s))"
  by (auto simp: navigate_def Let_def history_ok_push_url
      split: sum.split option.split
      intro: histories_ok_same histories_ok_upd [where h = "push_url u h" for u h])

lemma histories_okD: "histories_ok s \<Longrightarrow> history s i = Some h \<Longrightarrow> history_ok h"
  by (simp add: histories_ok_def)

lemma history_ok_back: "history_ok h \<Longrightarrow> 0 < index h \<Longrightarrow> history_ok (h\<lparr>index := index h - 1\<rparr>)"
  by (auto simp: history_ok_def)

lemma history_ok_forward:
  "history_ok h \<Longrightarrow> index h < int (length (stack h)) - 1 \<Longrightarrow> history_ok (h\<lparr>index := index h + 1\<rparr>)"
  by (auto simp: history_ok_def)

lemma history_goBack:
  "history (goBack s) =
     (case getActiveTab s of
        None \<Rightarrow> history s
      | Some t \<Rightarrow>
          (case history s (tab_id t) of
             None \<Rightarrow> history s
           | Some h \<Rightarrow>
               if 0 < index h then (history s)(tab_id t \<mapsto> h\<lparr>index := index h - 1\<rparr>)
               else history s))"
  by (simp add: goBack_def Let_def split: option.split)

lemma history_goForward:
  "history (goForward s) =
     (case getActiveTab s of
        None \<Rightarrow> history s
      | Some t \<Rightarrow>
          (case history s (tab_id t) of
             None \<Rightarrow> history s
           | Some h \<Rightarrow>
               if index h < int (length (stack h)) - 1
               then (history s)(tab_id t \<mapsto> h\<lparr>index := index h + 1\<rparr>)
               else history s))"
  by (simp add: goForward_def Let_def split: option.split)

lemma histories_ok_goBack:
  assumes "histories_ok s"
  shows "histories_ok (goBack s)"
proof (cases "getActiveTab s")
  case None
  then show ?thesis using assms by (simp add: goBack_def)
next
  case active: (Some t)
  show ?thesis
  proof (cases "history s (tab_id t)")
    case None
    with active show ?thesis using assms by (simp add: goBack_def)
  next
    case (Some h)
    show ?thesis
    proof (cases "0 < index h")
      case True
      have "history_ok (h\<lparr>index := index h - 1\<rparr>)"
        using histories_okD [OF assms Some] True by (rule history_ok_back)
      moreover have "history (goBack s) = (history s)(tab_id t \<mapsto> h\<lparr>index := index h - 1\<rparr>)"
        using active Some True by (simp add: history_goBack)
      ultimately show ?thesis by (rule histories_ok_upd [OF assms])
    next
      case False
      with active Some show ?thesis using assms by (simp add: goBack_def)
    qed
  qed
qed

lemma histories_ok_goForward:
  assumes "histories_ok s"
  shows "histories_ok (goForward s)"
proof (cases "getActiveTab s")
  case None
  then show ?thesis using assms by (simp add: goForward_def)
next
  case active: (Some t)
  show ?thesis
  proof (cases "history s (tab_id t)")
    case None
    with active show ?thesis using assms by (simp add: goForward_def)
  next
    case (Some h)
    show ?thesis
    proof (cases "index h < int (length (stack h)) - 1")
      case True
      have "history_ok (h\<lparr>index := index h + 1\<rparr>)"
        using histories_okD [OF assms Some] True by (rule history_ok_forward)
      moreover have "history (goForward s) = (history s)(tab_id t \<mapsto> h\<lparr>index := index h + 1\<rparr>)"
        using active Some True by (simp add: history_goForward)
      ultimately show ?thesis by (rule histories_ok_upd [OF assms])
    next
      case False
      with active Some show ?thesis using assms by (simp add: goForward_def)
    qed
  qed
qed

lemma snd_createNewTab:
  "snd (createNewTab P u s) =
     (if truthy u then snd (navigate P (or_empty u) (opened u s)) else opened u s)"
  by (simp add: createNewTab_def opened_def Let_def split: prod.split sum.split)

lemma histories_ok_opened: "histories_ok s \<Longrightarrow> histories_ok (opened u s)"
  by (auto simp: histories_ok_def history_ok_def opened_def split: if_splits)

lemma histories_ok_createNewTab: "histories_ok s \<Longrightarrow> histories_ok (snd (createNewTab P u s))"
  by (simp add: snd_createNewTab histories_ok_opened histories_ok_navigate)

lemma histories_ok_closeTab: "histories_ok s \<Longrightarrow> histories_ok (closeTab P i s)"
proof -
  assume ok: "histories_ok s"
  have del: "histories_ok (s\<lparr>tabs := ts, history := (history s)(i := None)\<rparr>)" for ts
    using ok by (auto simp: histories_ok_def split: if_splits)
  show ?thesis
    unfolding closeTab_def Let_def
    using ok del
    by (auto split: option.split intro!: histories_ok_createNewTab
        intro: histories_ok_same [OF del])
qed

lemma histories_ok_apply: "histories_ok s \<Longrightarrow> histories_ok (apply_operation P s op)"
  by (cases op)
     (auto intro: histories_ok_navigate histories_ok_goBack histories_ok_goForward
        histories_ok_createNewTab histories_ok_closeTab
        histories_ok_same [where s = s]
        simp: reload_def goHome_def split: option.split)

lemma histories_ok_run: "histories_ok s \<Longrightarrow> histories_ok (run P s ops)"
  unfolding run_def by (induction ops arbitrary: s) (simp_all add: histories_ok_apply)

lemma histories_ok_new: "histories_ok (new_BrowserCore fr)"
  by (simp add: histories_ok_def new_BrowserCore_def)

text \<open>
  Claim C1. Whatever operations are applied to a new BrowserCore, in every tab's history
  the index stays in \<open>[-1, length - 1]\<close>; it is \<open>-1\<close> exactly when the stack is empty, and
  a valid position of the stack when the stack is not empty.
\<close>

theorem history_index_in_bounds:
  "history (run P (new_BrowserCore fr) ops) i = Some h \<Longrightarrow>
     - 1 \<le> index h \<and> index h \<le> int (length (stack h)) - 1 \<and>
     (index h = - 1 \<longleftrightarrow> stack h = []) \<and>
     (stack h \<noteq> [] \<longrightarrow> 0 \<le> index h \<and> index h < int (length (stack h)))"
  using histories_okD [OF histories_ok_run [OF histories_ok_new], of P fr ops i h]
  by (auto simp: history_ok_def)

text \<open>
  C1 on an example: a new tab, two navigations and one step back leave the index at \<open>0\<close>
  of a stack of two.
\<close>

theorem history_index_in_bounds_witness:
  "history (run sample_platform (new_BrowserCore (Some sample_frame))
      [CreateNewTab None, Navigate (js ''example.com''), Navigate (js ''hello world''), GoBack])
     (TabId 1) =
     Some \<lparr>stack = [js ''https://example.com'',
                    js ''https://www.google.com/search?q=hello%20world''], index = 0\<rparr> \<and>
   - 1 \<le> (0::int) \<and> (0::int) \<le> int (length [js ''https://example.com'',
                    js ''https://www.google.com/search?q=hello%20world'']) - 1"
proof -
  have reached: "history (run sample_platform (new_BrowserCore (Some sample_frame))
      [CreateNewTab None, Navigate (js ''example.com''), Navigate (js ''hello world''), GoBack])
     (TabId 1) =
     Some \<lparr>stack = [js ''https://example.com'',
                    js ''https://www.google.com/search?q=hello%20world''], index = 0\<rparr>"
    by (simp add: string_defs url_defs browser_defs sample_frame_def)
  from history_index_in_bounds [OF reached] reached show ?thesis by simp
qed

section \<open>Navigation\<close>

lemma trim_blank:
  assumes "\<forall>c\<in>set s. isWhiteSpace c"
  shows "trim s = []"
proof -
  from assms have blank: "dropWhile isWhiteSpace s = []" by (induction s) simp_all
  show ?thesis unfolding trim_def blank by simp
qed

text \<open>
  Claim C10. For an input that is empty or has only whitespace, \<open>navigate\<close> returns at once
  and the state it leaves is the state it got: tabs, histories, address bar, frame and
  load state.
\<close>

theorem navigate_blank_noop:
  assumes "\<forall>c\<in>set input. isWhiteSpace c"
  shows "navigate P input s = (Inr (), s)"
proof -
  from assms have "trim input = []" by (rule trim_blank)
  then have "input = [] \<or> trim input = []" by simp
  then show ?thesis unfolding navigate_def by (simp only: if_True)
qed

text \<open>C10 on a string of a space, a tab and an ideographic space, and on the empty string.\<close>

theorem navigate_blank_noop_witness:
  "navigate sample_platform [0x20, 0x9, 0x3000] sample_browser = (Inr (), sample_browser) \<and>
   navigate sample_platform [] sample_browser = (Inr (), sample_browser)"
proof -
  have "\<forall>c\<in>set [0x20, 0x9, 0x3000]. isWhiteSpace c" by (simp add: isWhiteSpace_def)
  from navigate_blank_noop [OF this] navigate_blank_noop [of "[]"]
  show ?thesis by simp
qed

lemma slice0_take: "0 \<le> e \<Longrightarrow> slice0 xs e = take (nat e) xs"
  by (simp add: slice0_def Let_def min_def)

lemma push_url_take:
  "- 1 \<le> index h \<Longrightarrow>
     push_url u h =
       \<lparr>stack = take (nat (index h + 1)) (stack h) @ [u],
        index = int (length (take (nat (index h + 1)) (stack h) @ [u])) - 1\<rparr>"
  by (simp add: push_url_def Let_def slice0_take)

lemma history_navigate:
  assumes "trim input \<noteq> []" and "parseUrl P (trim input) = Inr u"
    and "getActiveTab s = Some t" and "history s (tab_id t) = Some h"
  shows "history (snd (navigate P input s)) = (history s)(tab_id t \<mapsto> push_url u h)"
proof -
  from assms(1) have "input \<noteq> []" by (auto simp: trim_def)
  with assms show ?thesis by (simp add: navigate_def Let_def)
qed

lemma find_update_first:
  "(\<And>x. p x \<Longrightarrow> p (f x)) \<Longrightarrow> find p (update_first p f xs) = map_option f (find p xs)"
  by (induction xs) auto

lemma getActiveTab_update_active:
  "(\<And>t. tab_id (f t) = tab_id t) \<Longrightarrow>
     getActiveTab (update_active f s) = map_option f (getActiveTab s)"
  by (simp add: getActiveTab_def update_active_def find_update_first split: option.split)

lemma getActiveTab_cong:
  "tabs s' = tabs s \<Longrightarrow> activeTabId s' = activeTabId s \<Longrightarrow> getActiveTab s' = getActiveTab s"
  by (simp add: getActiveTab_def split: option.split)

lemma getActiveTab_moved:
  "getActiveTab (loadUrl u' (updateAddressBar u (update_active f (s\<lparr>history := hs\<rparr>)))) =
     getActiveTab (update_active f s)"
  by (rule getActiveTab_cong) (simp_all add: update_active_def split: option.split)

lemma goBack_step:
  assumes "getActiveTab s = Some t" and "history s (tab_id t) = Some h" and "0 < index h"
  shows "getActiveTab (goBack s) = Some (t\<lparr>url := js_index (stack h) (index h - 1)\<rparr>)"
    and "history (goBack s) = (history s)(tab_id t \<mapsto> h\<lparr>index := index h - 1\<rparr>)"
  using assms
  by (simp_all add: goBack_def Let_def getActiveTab_moved getActiveTab_update_active)

lemma goForward_step:
  assumes "getActiveTab s = Some t" and "history s (tab_id t) = Some h"
    and "index h < int (length (stack h)) - 1"
  shows "getActiveTab (goForward s) = Some (t\<lparr>url := js_index (stack h) (index h + 1)\<rparr>)"
    and "history (goForward s) = (history s)(tab_id t \<mapsto> h\<lparr>index := index h + 1\<rparr>)"
  using assms
  by (simp_all add: goForward_def Let_def getActiveTab_moved getActiveTab_update_active)

lemma navigate_pushes:
  assumes "trim input \<noteq> []" and "parseUrl P (trim input) = Inr u"
    and "getActiveTab s = Some t" and "history s (tab_id t) = Some h" and "- 1 \<le> index h"
  shows "history (snd (navigate P input s)) (tab_id t) =
           Some \<lparr>stack = take (nat (index h + 1)) (stack h) @ [u],
                 index = int (length (take (nat (index h + 1)) (stack h) @ [u])) - 1\<rparr>"
  using assms by (simp add: history_navigate push_url_take)

lemma navigate_after_goBack:
  assumes "trim input \<noteq> []" and "parseUrl P (trim input) = Inr u"
    and "getActiveTab s = Some t" and "history s (tab_id t) = Some h" and "0 < index h"
  shows "history (snd (navigate P input (goBack s))) (tab_id t) =
           Some \<lparr>stack = take (nat (index h)) (stack h) @ [u],
                 index = int (length (take (nat (index h)) (stack h) @ [u])) - 1\<rparr>"
proof -
  let ?t = "t\<lparr>url := js_index (stack h) (index h - 1)\<rparr>"
  let ?h = "h\<lparr>index := index h - 1\<rparr>"
  have active: "getActiveTab (goBack s) = Some ?t"
    using assms(3,4,5) by (rule goBack_step)
  have hist: "history (goBack s) (tab_id ?t) = Some ?h"
    using goBack_step(2) [OF assms(3,4,5)] by simp
  have "- 1 \<le> index ?h" using assms(5) by simp
  with navigate_pushes [OF assms(1,2) active hist] show ?thesis by simp
qed

lemma sample_active:
  "getActiveTab sample_browser =
     Some \<lparr>tab_id = TabId 1, title = js ''B'', url = Some (js ''https://b.example/''),
           isHome = False\<rparr>"
  by (simp add: getActiveTab_def sample_browser_def)

lemma sample_history:
  "history sample_browser (TabId 1) =
     Some \<lparr>stack = [js ''https://a.example/'', js ''https://b.example/'',
                    js ''https://c.example/''], index = 1\<rparr>"
  by (simp add: sample_browser_def)

text \<open>
  Claim C2. When \<open>navigate\<close> resolves its input to the URL \<open>u\<close>, the active tab's stack
  becomes its first \<open>index + 1\<close> entries followed by \<open>u\<close>, and the index becomes the last
  position. After a step back the entries from the old index on are gone.
\<close>

theorem navigate_truncates_forward_history:
  assumes "trim input \<noteq> []" and "parseUrl P (trim input) = Inr u"
    and "getActiveTab s = Some t" and "history s (tab_id t) = Some h" and "- 1 \<le> index h"
  shows "history (snd (navigate P input s)) (tab_id t) =
           Some \<lparr>stack = take (nat (index h + 1)) (stack h) @ [u],
                 index = int (length (take (nat (index h + 1)) (stack h) @ [u])) - 1\<rparr> \<and>
         (0 < index h \<longrightarrow>
            history (snd (navigate P input (goBack s))) (tab_id t) =
              Some \<lparr>stack = take (nat (index h)) (stack h) @ [u],
                    index = int (length (take (nat (index h)) (stack h) @ [u])) - 1\<rparr>)"
  using navigate_pushes [OF assms] navigate_after_goBack [OF assms(1,2,3,4)] by simp

text \<open>
  C2 on an example: at index 1 of three entries, a navigation drops the third entry; after
  a step back it drops the second and the third.
\<close>

theorem navigate_truncates_forward_history_witness:
  "history (snd (navigate sample_platform (js '' example.com'') sample_browser)) (TabId 1) =
     Some \<lparr>stack = [js ''https://a.example/'', js ''https://b.example/'',
                    js ''https://example.com''], index = 2\<rparr> \<and>
   history (snd (navigate sample_platform (js '' example.com'') (goBack sample_browser))) (TabId 1) =
     Some \<lparr>stack = [js ''https://a.example/'', js ''https://example.com''], index = 1\<rparr>"
proof -
  have tr: "trim (js '' example.com'') = js ''example.com''" by (simp add: string_defs)
  have 1: "trim (js '' example.com'') \<noteq> []" by (simp add: string_defs)
  have 2: "parseUrl sample_platform (trim (js '' example.com'')) = Inr (js ''https://example.com'')"
    unfolding tr by (simp add: string_defs url_defs)
  have 3: "history sample_browser (tab_id \<lparr>tab_id = TabId 1, title = js ''B'', url = Some (js ''https://b.example/''),
           isHome = False\<rparr>) = Some \<lparr>stack = [js ''https://a.example/'', js ''https://b.example/'',
                    js ''https://c.example/''], index = 1\<rparr>" using sample_history by simp
  from navigate_truncates_forward_history [OF 1 2 sample_active 3]
  show ?thesis by simp
qed

section \<open>Back and forward\<close>

lemma stack_goBack: "map_option stack (history (goBack s) i) = map_option stack (history s i)"
  by (simp add: history_goBack split: option.split)

lemma stack_goForward: "map_option stack (history (goForward s) i) = map_option stack (history s i)"
  by (simp add: history_goForward split: option.split)

lemma goBack_noop:
  "getActiveTab s = Some t \<Longrightarrow> history s (tab_id t) = Some h \<Longrightarrow> \<not> 0 < index h \<Longrightarrow> goBack s = s"
  by (simp add: goBack_def)

lemma goForward_noop:
  "getActiveTab s = Some t \<Longrightarrow> history s (tab_id t) = Some h \<Longrightarrow>
     \<not> index h < int (length (stack h)) - 1 \<Longrightarrow> goForward s = s"
  by (simp add: goForward_def)

lemma back_forward:
  assumes "getActiveTab s = Some t" and "history s (tab_id t) = Some h"
    and "0 < index h" and "index h - 1 < int (length (stack h)) - 1"
  shows "history (goForward (goBack s)) = history s"
    and "getActiveTab (goForward (goBack s)) = Some (t\<lparr>url := Some (stack h ! nat (index h))\<rparr>)"
proof -
  let ?t = "t\<lparr>url := js_index (stack h) (index h - 1)\<rparr>"
  let ?h = "h\<lparr>index := index h - 1\<rparr>"
  have active: "getActiveTab (goBack s) = Some ?t"
    using assms(1,2,3) by (rule goBack_step)
  have hist: "history (goBack s) (tab_id ?t) = Some ?h"
    using goBack_step(2) [OF assms(1,2,3)] by simp
  have fwd: "index ?h < int (length (stack ?h)) - 1" using assms(4) by simp
  have "history (goForward (goBack s)) = (history (goBack s))(tab_id ?t \<mapsto> ?h\<lparr>index := index ?h + 1\<rparr>)"
    using active hist fwd by (rule goForward_step)
  then show "history (goForward (goBack s)) = history s"
    using goBack_step(2) [OF assms(1,2,3)] assms(2) by (auto simp: fun_eq_iff)
  have "getActiveTab (goForward (goBack s)) = Some (?t\<lparr>url := js_index (stack ?h) (index ?h + 1)\<rparr>)"
    using active hist fwd by (rule goForward_step)
  then show "getActiveTab (goForward (goBack s)) = Some (t\<lparr>url := Some (stack h ! nat (index h))\<rparr>)"
    using assms(3,4) by (simp add: js_index_def)
qed

text \<open>
  Claim C3. \<open>goBack\<close> and \<open>goForward\<close> never change a stack. When the index is positive and
  the step back leaves a step forward possible, \<open>goBack\<close> then \<open>goForward\<close> gives back the
  histories as they were, and the tab shows the URL at the index held before. When the
  index is not positive \<open>goBack\<close> changes nothing, and when the index is at the end of the
  stack \<open>goForward\<close> changes nothing.
\<close>

theorem back_forward_restores:
  "(\<forall>i. map_option stack (history (goBack s) i) = map_option stack (history s i)) \<and>
   (\<forall>i. map_option stack (history (goForward s) i) = map_option stack (history s i)) \<and>
   (getActiveTab s = Some t \<and> history s (tab_id t) = Some h \<longrightarrow>
      (0 < index h \<and> index h - 1 < int (length (stack h)) - 1 \<longrightarrow>
         history (goForward (goBack s)) = history s \<and>
         getActiveTab (goForward (goBack s)) = Some (t\<lparr>url := Some (stack h ! nat (index h))\<rparr>)) \<and>
      (\<not> 0 < index h \<longrightarrow> goBack s = s) \<and>
      (\<not> index h < int (length (stack h)) - 1 \<longrightarrow> goForward s = s))"
  using stack_goBack [of s] stack_goForward [of s] back_forward [of s t h]
    goBack_noop [of s t h] goForward_noop [of s t h]
  by blast

text \<open>
  C3 on an example, at index 1 of three entries: back then forward restores the history and
  the tab; a second step back, and a second step forward, change nothing.
\<close>

theorem back_forward_restores_witness:
  "history (goForward (goBack sample_browser)) = history sample_browser \<and>
   getActiveTab (goForward (goBack sample_browser)) = getActiveTab sample_browser \<and>
   map_option stack (history (goBack sample_browser) (TabId 1)) =
     Some [js ''https://a.example/'', js ''https://b.example/'', js ''https://c.example/''] \<and>
   goBack (goBack sample_browser) = goBack sample_browser \<and>
   goForward (goForward sample_browser) = goForward sample_browser"
proof -
  let ?t = "\<lparr>tab_id = TabId 1, title = js ''B'', url = Some (js ''https://b.example/''), isHome = False\<rparr>"
  let ?h = "\<lparr>stack = [js ''https://a.example/'', js ''https://b.example/'', js ''https://c.example/''], index = 1\<rparr>"
  have h: "history sample_browser (tab_id ?t) = Some ?h" using sample_history by simp
  have b: "getActiveTab (goBack sample_browser) = Some (?t\<lparr>url := Some (js ''https://a.example/'')\<rparr>)"
    using goBack_step(1) [OF sample_active h] by (simp add: js_index_def)
  have bh: "history (goBack sample_browser) (tab_id (?t\<lparr>url := Some (js ''https://a.example/'')\<rparr>)) = Some (?h\<lparr>index := 0\<rparr>)"
    using goBack_step(2) [OF sample_active h] by simp
  have f: "getActiveTab (goForward sample_browser) = Some (?t\<lparr>url := Some (js ''https://c.example/'')\<rparr>)"
    using goForward_step(1) [OF sample_active h] by (simp add: js_index_def)
  have fh: "history (goForward sample_browser) (tab_id (?t\<lparr>url := Some (js ''https://c.example/'')\<rparr>)) = Some (?h\<lparr>index := 2\<rparr>)"
    using goForward_step(2) [OF sample_active h] by simp
  from back_forward_restores [of sample_browser ?t ?h] sample_active h
    back_forward_restores [of "goBack sample_browser" "?t\<lparr>url := Some (js ''https://a.example/'')\<rparr>" "?h\<lparr>index := 0\<rparr>"] b bh
    back_forward_restores [of "goForward sample_browser" "?t\<lparr>url := Some (js ''https://c.example/'')\<rparr>" "?h\<lparr>index := 2\<rparr>"] f fh
  show ?thesis by simp
qed

section \<open>The tab list\<close>

lemma tab_ids_update_first:
  "(\<And>t. tab_id (f t) = tab_id t) \<Longrightarrow> map tab_id (update_first p f ts) = map tab_id ts"
  by (induction ts) auto

lemma tab_ids_update_active:
  "(\<And>t. tab_id (f t) = tab_id t) \<Longrightarrow> map tab_id (tabs (update_active f s)) = map tab_id (tabs s)"
  by (simp add: update_active_def tab_ids_update_first split: option.split)

lemma registry_ok_ids:
  "registry_ok s \<longleftrightarrow>
     distinct (map tab_id (tabs s)) \<and> (\<forall>i\<in>set (map tab_id (tabs s)). tab_number i \<le> tabIdCounter s)"
  by (auto simp: registry_ok_def)

lemma registry_ok_same:
  "registry_ok s \<Longrightarrow> map tab_id (tabs s') = map tab_id (tabs s) \<Longrightarrow>
     tabIdCounter s' = tabIdCounter s \<Longrightarrow> registry_ok s'"
  unfolding registry_ok_ids by simp

lemma tab_ids_navigate: "map tab_id (tabs (snd (navigate P input s))) = map tab_id (tabs s)"
  by (simp add: navigate_def Let_def tab_ids_update_active split: sum.split option.split)

lemma tabIdCounter_navigate: "tabIdCounter (snd (navigate P input s)) = tabIdCounter s"
  by (simp add: navigate_def Let_def split: sum.split option.split)

lemma registry_ok_navigate: "registry_ok s \<Longrightarrow> registry_ok (snd (navigate P input s))"
  by (erule registry_ok_same) (rule tab_ids_navigate tabIdCounter_navigate)+

lemma registry_ok_goBack: "registry_ok s \<Longrightarrow> registry_ok (goBack s)"
  by (erule registry_ok_same)
     (simp_all add: goBack_def Let_def tab_ids_update_active split: option.split)

lemma registry_ok_goForward: "registry_ok s \<Longrightarrow> registry_ok (goForward s)"
  by (erule registry_ok_same)
     (simp_all add: goForward_def Let_def tab_ids_update_active split: option.split)

lemma registry_ok_goHome: "registry_ok s \<Longrightarrow> registry_ok (goHome s)"
  by (erule registry_ok_same)
     (simp_all add: goHome_def tab_ids_update_active split: option.split)

lemma registry_ok_reload: "registry_ok s \<Longrightarrow> registry_ok (reload s)"
  by (erule registry_ok_same) (simp_all add: reload_def split: option.split)

lemma registry_ok_switchToTab: "registry_ok s \<Longrightarrow> registry_ok (switchToTab i s)"
  by (erule registry_ok_same) simp_all

lemma registry_ok_opened:
  assumes "registry_ok s"
  shows "registry_ok (opened u s)"
proof -
  have "tab_number i \<le> tabIdCounter s \<Longrightarrow> i \<noteq> TabId (Suc (tabIdCounter s))" for i
    by auto
  with assms have "TabId (Suc (tabIdCounter s)) \<notin> set (map tab_id (tabs s))"
    unfolding registry_ok_ids by blast
  with assms show ?thesis
    unfolding registry_ok_ids opened_def by (auto simp: le_Suc_eq)
qed

lemma registry_ok_createNewTab: "registry_ok s \<Longrightarrow> registry_ok (snd (createNewTab P u s))"
  by (simp add: snd_createNewTab registry_ok_opened registry_ok_navigate)

lemma registry_ok_removed:
  assumes "registry_ok s"
  shows "registry_ok (s\<lparr>tabs := take i (tabs s) @ drop (Suc i) (tabs s), history := hs\<rparr>)"
proof -
  let ?ids = "map tab_id (tabs s)"
  from assms have d: "distinct ?ids" by (simp add: registry_ok_ids)
  have "distinct (take i ?ids @ drop (Suc i) ?ids)"
    using d set_take_disj_set_drop_if_distinct [OF d, of i "Suc i"] by simp
  moreover have "set (take i ?ids @ drop (Suc i) ?ids) \<subseteq> set ?ids"
    using set_take_subset [of i ?ids] set_drop_subset [of "Suc i" ?ids] by auto
  ultimately show ?thesis
    using assms unfolding registry_ok_ids by (auto simp: take_map drop_map)
qed

lemma registry_ok_closeTab:
  assumes "registry_ok s"
  shows "registry_ok (closeTab P i s)"
proof (cases "findIndex (\<lambda>t. tab_id t = i) (tabs s)")
  case None
  with assms show ?thesis by (simp add: closeTab_def)
next
  case (Some k)
  let ?s1 = "s\<lparr>tabs := take k (tabs s) @ drop (Suc k) (tabs s), history := (history s)(i := None)\<rparr>"
  have ok1: "registry_ok ?s1" using assms by (rule registry_ok_removed)
  have "closeTab P i s =
     (if length (tabs ?s1) = 0 then snd (createNewTab P None ?s1)
      else if activeTabId ?s1 = Some i then
        switchToTab (tab_id (tabs ?s1 ! min k (length (tabs ?s1) - 1))) ?s1
      else ?s1)"
    by (simp only: closeTab_def Some option.case Let_def)
  with ok1 registry_ok_createNewTab [OF ok1] registry_ok_switchToTab [OF ok1]
  show ?thesis by presburger
qed

lemma registry_ok_apply: "registry_ok s \<Longrightarrow> registry_ok (apply_operation P s op)"
  by (cases op)
     (simp_all add: registry_ok_navigate registry_ok_goBack registry_ok_goForward
        registry_ok_createNewTab registry_ok_closeTab registry_ok_switchToTab
        registry_ok_reload registry_ok_goHome)

lemma registry_ok_run: "registry_ok s \<Longrightarrow> registry_ok (run P s ops)"
  unfolding run_def by (induction ops arbitrary: s) (simp_all add: registry_ok_apply)

text \<open>
  Every state that the operations reach from a new BrowserCore has distinct tab
  identifiers, none beyond the counter: a new tab's identifier was never used before.
\<close>

lemma registry_ok_reachable: "registry_ok (run P (new_BrowserCore fr) ops)"
  by (rule registry_ok_run) (simp add: registry_ok_def new_BrowserCore_def)

section \<open>Closing a tab\<close>

lemma findIndex_distinct:
  "distinct (map f xs) \<Longrightarrow> i < length xs \<Longrightarrow> findIndex (\<lambda>x. f x = f (xs ! i)) xs = Some i"
proof (induction xs arbitrary: i)
  case Nil
  then show ?case by simp
next
  case (Cons x xs)
  show ?case
  proof (cases i)
    case 0
    then show ?thesis by simp
  next
    case (Suc k)
    with Cons.prems have "k < length xs" and "f x \<noteq> f (xs ! k)" by auto
    with Cons.IH [of k] Cons.prems Suc show ?thesis by simp
  qed
qed

lemma removed_nth:
  assumes "distinct (map f xs)" and "i < length xs"
  shows "f (xs ! i) \<notin> f ` set (take i xs @ drop (Suc i) xs)"
proof -
  from assms(2) have "xs = take i xs @ xs ! i # drop (Suc i) xs" by (rule id_take_nth_drop)
  then have "map f xs = map f (take i xs) @ f (xs ! i) # map f (drop (Suc i) xs)"
    by (metis list.simps(9) map_append)
  with assms(1) have "distinct (map f (take i xs) @ f (xs ! i) # map f (drop (Suc i) xs))"
    by simp
  then show ?thesis by auto
qed

lemma activeTabId_switchToTab:
  "activeTabId (switchToTab j s) = (if j \<in> tab_id ` set (tabs s) then Some j else activeTabId s)"
proof (cases "find (\<lambda>t. tab_id t = j) (tabs s)")
  case None
  then have "j \<notin> tab_id ` set (tabs s)" by (auto simp: find_None_iff)
  with None show ?thesis by (simp add: switchToTab_def)
next
  case (Some t)
  then have "j \<in> tab_id ` set (tabs s)" by (auto simp: find_Some_iff)
  with Some show ?thesis
    by (simp add: switchToTab_def Let_def showWelcomePage_def)
qed

lemma closeTab_found:
  assumes "findIndex (\<lambda>t. tab_id t = j) (tabs s) = Some i"
    and "take i (tabs s) @ drop (Suc i) (tabs s) = ts" and "ts \<noteq> []"
  shows "closeTab P j s =
     (if activeTabId s = Some j
      then switchToTab (tab_id (ts ! min i (length ts - 1)))
             (s\<lparr>tabs := ts, history := (history s)(j := None)\<rparr>)
      else s\<lparr>tabs := ts, history := (history s)(j := None)\<rparr>)"
  using assms by (simp add: closeTab_def Let_def)

lemma closeTab_last:
  assumes "length (tabs s) = 1"
  shows "closeTab P (tab_id (tabs s ! 0)) s =
     s\<lparr>tabs := [\<lparr>tab_id = TabId (tabIdCounter s + 1), title = js ''New Tab'', url = None,
                  isHome = True\<rparr>],
       history := ((history s)(tab_id (tabs s ! 0) := None))
                    (TabId (tabIdCounter s + 1) \<mapsto> \<lparr>stack = [], index = - 1\<rparr>),
       tabIdCounter := tabIdCounter s + 1,
       activeTabId := Some (TabId (tabIdCounter s + 1)),
       address_bar := [], view := Home\<rparr>"
proof -
  from assms obtain t where ts: "tabs s = [t]" by (cases "tabs s") auto
  show ?thesis
    by (simp add: closeTab_def ts snd_createNewTab opened_def truthy_def switchToTab_def
        Let_def or_empty_def updateAddressBar_def showWelcomePage_def)
qed

lemma closeTab_other:
  assumes "distinct (map tab_id (tabs s))" and "i < length (tabs s)" and "1 < length (tabs s)"
    and "take i (tabs s) @ drop (Suc i) (tabs s) = ts"
  shows "tabs (closeTab P (tab_id (tabs s ! i)) s) = ts"
    and "activeTabId s = Some (tab_id (tabs s ! i)) \<Longrightarrow>
         activeTabId (closeTab P (tab_id (tabs s ! i)) s) =
           Some (tab_id (ts ! min i (length ts - 1)))"
    and "activeTabId s \<noteq> Some (tab_id (tabs s ! i)) \<Longrightarrow>
         activeTabId (closeTab P (tab_id (tabs s ! i)) s) = activeTabId s"
    and "history (closeTab P (tab_id (tabs s ! i)) s) = (history s)(tab_id (tabs s ! i) := None)"
    and "ts \<noteq> []"
proof -
  have "length ts = length (tabs s) - 1" using assms(2,4) by auto
  with assms(3) show ne: "ts \<noteq> []" by auto
  have "min i (n - 1) < n" if "n \<noteq> 0" for n :: nat using that by auto
  with ne have "min i (length ts - 1) < length ts" by simp
  then have mem: "tab_id (ts ! min i (length ts - 1)) \<in> tab_id ` set ts"
    using nth_mem by blast
  note ct = closeTab_found [OF findIndex_distinct [OF assms(1,2)] assms(4) ne, of P]
  show "tabs (closeTab P (tab_id (tabs s ! i)) s) = ts"
    by (simp add: ct)
  show "history (closeTab P (tab_id (tabs s ! i)) s) = (history s)(tab_id (tabs s ! i) := None)"
    by (simp add: ct)
  show "activeTabId (closeTab P (tab_id (tabs s ! i)) s) = activeTabId s"
    if "activeTabId s \<noteq> Some (tab_id (tabs s ! i))"
    using that by (simp add: ct)
  show "activeTabId (closeTab P (tab_id (tabs s ! i)) s) =
           Some (tab_id (ts ! min i (length ts - 1)))"
    if "activeTabId s = Some (tab_id (tabs s ! i))"
    using that mem by (simp add: ct activeTabId_switchToTab)
qed

text \<open>
  Claim C4. Closing a tab of a registry with distinct identifiers, none beyond the counter,
  removes that tab and its history and leaves at least one tab. If it was the only tab, the
  registry then holds exactly one new home tab, which is active. Otherwise the other tabs
  stay in order. If the closed tab was active, the active tab is then the one at position
  \<open>min i (n - 1)\<close>, \<open>i\<close> the position of the closed tab and \<open>n\<close> the new number of tabs.
\<close>

theorem closeTab_keeps_a_tab:
  assumes "registry_ok s" and "i < length (tabs s)"
    and "s' = closeTab P (tab_id (tabs s ! i)) s"
  shows "tab_id (tabs s ! i) \<notin> tab_id ` set (tabs s') \<and>
         history s' (tab_id (tabs s ! i)) = None \<and>
         tabs s' \<noteq> [] \<and>
         (length (tabs s) = 1 \<longrightarrow>
            tabs s' = [\<lparr>tab_id = TabId (tabIdCounter s + 1), title = js ''New Tab'',
                        url = None, isHome = True\<rparr>] \<and>
            TabId (tabIdCounter s + 1) \<notin> tab_id ` set (tabs s) \<and>
            history s' (TabId (tabIdCounter s + 1)) = Some \<lparr>stack = [], index = - 1\<rparr> \<and>
            activeTabId s' = Some (TabId (tabIdCounter s + 1)) \<and> view s' = Home) \<and>
         (1 < length (tabs s) \<longrightarrow>
            tabs s' = take i (tabs s) @ drop (Suc i) (tabs s) \<and>
            (activeTabId s \<noteq> Some (tab_id (tabs s ! i)) \<longrightarrow> activeTabId s' = activeTabId s)) \<and>
         (activeTabId s = Some (tab_id (tabs s ! i)) \<longrightarrow>
            activeTabId s' = Some (tab_id (tabs s' ! min i (length (tabs s') - 1))))"
proof (cases "length (tabs s) = 1")
  case True
  with assms(2) have i0: "i = 0" by simp
  from True obtain t where ts: "tabs s = [t]" by (cases "tabs s") auto
  from assms(1) ts have "tab_number (tab_id t) \<le> tabIdCounter s" by (simp add: registry_ok_def)
  then have fresh: "tab_id t \<noteq> TabId (tabIdCounter s + 1)" by auto
  show ?thesis
    unfolding assms(3) i0 closeTab_last [OF True]
    using fresh ts by auto
next
  case False
  with assms(2) have many: "1 < length (tabs s)" by simp
  from assms(1) have d: "distinct (map tab_id (tabs s))" by (simp add: registry_ok_def)
  note ct = closeTab_other [OF d assms(2) many refl]
  have "tab_id (tabs s ! i) \<notin> tab_id ` set (tabs s')"
    unfolding assms(3) ct(1) using d assms(2) by (rule removed_nth)
  moreover have "history s' (tab_id (tabs s ! i)) = None"
    unfolding assms(3) ct(4) by simp
  moreover have "tabs s' \<noteq> []"
    unfolding assms(3) ct(1) by (rule ct(5))
  moreover have "tabs s' = take i (tabs s) @ drop (Suc i) (tabs s)"
    unfolding assms(3) by (rule ct(1))
  moreover have "activeTabId s \<noteq> Some (tab_id (tabs s ! i)) \<longrightarrow> activeTabId s' = activeTabId s"
    unfolding assms(3) using ct(3) by simp
  moreover have "activeTabId s = Some (tab_id (tabs s ! i)) \<longrightarrow>
            activeTabId s' = Some (tab_id (tabs s' ! min i (length (tabs s') - 1)))"
    unfolding assms(3) ct(1) using ct(2) by blast
  ultimately show ?thesis using False many by simp
qed

text \<open>
  C4 on an example: closing the active first of two tabs makes the other one active;
  closing that one too leaves one new home tab.
\<close>

theorem closeTab_keeps_a_tab_witness:
  "tabs (closeTab sample_platform (TabId 1) sample_browser) =
     [\<lparr>tab_id = TabId 2, title = js ''New Tab'', url = None, isHome = True\<rparr>] \<and>
   activeTabId (closeTab sample_platform (TabId 1) sample_browser) = Some (TabId 2) \<and>
   tabs (closeTab sample_platform (TabId 2) (closeTab sample_platform (TabId 1) sample_browser)) =
     [\<lparr>tab_id = TabId 3, title = js ''New Tab'', url = None, isHome = True\<rparr>] \<and>
   activeTabId (closeTab sample_platform (TabId 2) (closeTab sample_platform (TabId 1) sample_browser)) =
     Some (TabId 3)"
proof -
  define s1 where "s1 = closeTab sample_platform (TabId 1) sample_browser"
  have ok: "registry_ok sample_browser" by (simp add: registry_ok_def sample_browser_def)
  have i: "0 < length (tabs sample_browser)" by (simp add: sample_browser_def)
  have e: "s1 = closeTab sample_platform (tab_id (tabs sample_browser ! 0)) sample_browser"
    by (simp add: s1_def sample_browser_def)
  have a: "activeTabId sample_browser = Some (tab_id (tabs sample_browser ! 0))"
    by (simp add: sample_browser_def)
  have l: "1 < length (tabs sample_browser)" by (simp add: sample_browser_def)
  from closeTab_keeps_a_tab [OF ok i e] a l
  have t1: "tabs s1 = [\<lparr>tab_id = TabId 2, title = js ''New Tab'', url = None, isHome = True\<rparr>]"
    and a1: "activeTabId s1 = Some (TabId 2)"
    by (simp_all add: sample_browser_def)
  have c1: "tabIdCounter s1 = 2"
    unfolding e using closeTab_other(1) by (simp add: sample_browser_def closeTab_def Let_def activeTabId_switchToTab switchToTab_def)
  have ok1: "registry_ok s1" by (simp add: registry_ok_def t1 c1)
  have i1: "0 < length (tabs s1)" by (simp add: t1)
  have e1: "closeTab sample_platform (TabId 2) s1 = closeTab sample_platform (tab_id (tabs s1 ! 0)) s1"
    by (simp add: t1)
  from closeTab_keeps_a_tab [OF ok1 i1 e1] t1 c1
  have "tabs (closeTab sample_platform (TabId 2) s1) = [\<lparr>tab_id = TabId 3, title = js ''New Tab'', url = None, isHome = True\<rparr>]"
    and "activeTabId (closeTab sample_platform (TabId 2) s1) = Some (TabId 3)"
    by simp_all
  with t1 a1 show ?thesis unfolding s1_def by simp
qed

section \<open>Resolving the input to a URL\<close>

subsection \<open>What the pattern matches\<close>

lemma nullable_lang: "nullable r \<longleftrightarrow> [] \<in> lang r"
  by (induction r) (auto intro: star_empty)

lemma star_Cons_elim:
  assumes "x \<in> star A" and "x = c # w"
  shows "\<exists>u v. w = u @ v \<and> c # u \<in> A \<and> v \<in> star A"
  using assms
proof (induction arbitrary: w)
  case star_empty
  then show ?case by simp
next
  case (star_more u v)
  show ?case
  proof (cases u)
    case Nil
    with star_more show ?thesis by simp
  next
    case (Cons d u')
    with star_more.prems have "d = c" and "w = u' @ v" by simp_all
    with star_more.hyps Cons show ?thesis by blast
  qed
qed

lemma star_Cons: "c # w \<in> star A \<longleftrightarrow> (\<exists>u v. w = u @ v \<and> c # u \<in> A \<and> v \<in> star A)"
proof
  assume "c # w \<in> star A"
  then show "\<exists>u v. w = u @ v \<and> c # u \<in> A \<and> v \<in> star A" by (rule star_Cons_elim) simp
next
  assume "\<exists>u v. w = u @ v \<and> c # u \<in> A \<and> v \<in> star A"
  then obtain u v where "w = u @ v" "c # u \<in> A" "v \<in> star A" by blast
  then show "c # w \<in> star A" using star_more [of "c # u" A v] by simp
qed

lemma lang_deriv: "w \<in> lang (deriv c r) \<longleftrightarrow> c # w \<in> lang r"
proof (induction r arbitrary: w)
  case (Cat r s)
  show ?case
  proof (cases "nullable r")
    case True
    then show ?thesis
      using Cat by (auto simp: nullable_lang Cons_eq_append_conv; blast)
  next
    case False
    then show ?thesis
      using Cat by (auto simp: nullable_lang Cons_eq_append_conv; blast)
  qed
next
  case (Star r)
  then show ?case by (auto simp: star_Cons)
qed auto

lemma test_from_start_lang:
  "test_from_start r s \<longleftrightarrow> (\<exists>p q. s = p @ q \<and> p \<in> lang r)"
proof (induction s arbitrary: r)
  case Nil
  show ?case by (simp add: nullable_lang)
next
  case (Cons c cs)
  have "(\<exists>p q. c # cs = p @ q \<and> p \<in> lang r) \<longleftrightarrow>
          [] \<in> lang r \<or> (\<exists>p q. cs = p @ q \<and> c # p \<in> lang r)"
    by (auto simp: Cons_eq_append_conv)
  with Cons [of "deriv c r"] show ?case by (simp add: nullable_lang lang_deriv)
qed

lemma star_symbols: "w \<in> star {[c] | c. p c} \<longleftrightarrow> (\<forall>c\<in>set w. p c)"
proof (induction w)
  case Nil
  show ?case by (simp add: star_empty)
next
  case (Cons d w)
  have "d # w \<in> star {[c] | c. p c} \<longleftrightarrow> p d \<and> w \<in> star {[c] | c. p c}"
    by (auto simp: star_Cons)
  with Cons show ?case by simp
qed

lemma lang_Plus_Sym: "lang (Plus (Sym p)) = {w. w \<noteq> [] \<and> (\<forall>c\<in>set w. p c)}"
proof -
  have "w \<in> lang (Plus (Sym p)) \<longleftrightarrow> w \<noteq> [] \<and> (\<forall>c\<in>set w. p c)" for w
  proof (cases w)
    case Nil
    then show ?thesis by (simp add: Plus_def)
  next
    case (Cons d v)
    have "d # v \<in> lang (Plus (Sym p)) \<longleftrightarrow> p d \<and> v \<in> star {[c] | c. p c}"
    proof
      assume "d # v \<in> lang (Plus (Sym p))"
      then show "p d \<and> v \<in> star {[c] | c. p c}"
        by (auto simp: Plus_def Cons_eq_append_conv)
    next
      assume "p d \<and> v \<in> star {[c] | c. p c}"
      then have "[d] @ v \<in> lang (Plus (Sym p))" unfolding Plus_def lang.simps by blast
      then show "d # v \<in> lang (Plus (Sym p))" by simp
    qed
    with Cons show ?thesis by (simp add: star_symbols)
  qed
  then show ?thesis by blast
qed

lemma domain_prefix_iff: "test_from_start domainPattern s \<longleftrightarrow> has_domain_prefix s"
proof
  assume "test_from_start domainPattern s"
  then obtain p q where s: "s = p @ q" and p: "p \<in> lang domainPattern"
    unfolding test_from_start_lang by blast
  let ?D = "Cat (Sym (\<lambda>c. c = 0x2E)) domainToken"
  from p obtain tok r where pr: "p = tok @ r" and tok: "tok \<in> lang domainToken"
    and r: "r \<in> lang (Plus ?D)"
    by (auto simp: domainPattern_def)
  from r obtain d r' where rd: "r = d @ r'" and d: "d \<in> lang ?D"
    by (auto simp: Plus_def)
  from d obtain tok2 where d2: "d = 0x2E # tok2" and tok2: "tok2 \<in> lang domainToken"
    by auto
  from tok2 obtain c tok2' where t2: "tok2 = c # tok2'" and c: "tokenChar c"
    unfolding domainToken_def lang_Plus_Sym by (cases tok2) auto
  from tok have "tok \<noteq> []" and "\<forall>x\<in>set tok. tokenChar x"
    unfolding domainToken_def lang_Plus_Sym by auto
  moreover have "s = tok @ 0x2E # c # (tok2' @ r' @ q)"
    using s pr rd d2 t2 by simp
  ultimately show "has_domain_prefix s" unfolding has_domain_prefix_def using c by blast
next
  assume "has_domain_prefix s"
  then obtain tok c rest where s: "s = tok @ 0x2E # c # rest" and tok: "tok \<noteq> []"
    and toks: "\<forall>x\<in>set tok. tokenChar x" and c: "tokenChar c"
    unfolding has_domain_prefix_def by blast
  have "tok \<in> lang domainToken" using tok toks unfolding domainToken_def lang_Plus_Sym by simp
  moreover have "[c] \<in> lang domainToken" using c unfolding domainToken_def lang_Plus_Sym by simp
  then have "[0x2E] @ [c] \<in> lang (Cat (Sym (\<lambda>c. c = 0x2E)) domainToken)"
    unfolding lang.simps by blast
  then have "([0x2E] @ [c]) @ [] \<in> lang (Plus (Cat (Sym (\<lambda>c. c = 0x2E)) domainToken))"
    unfolding Plus_def lang.simps using star_empty by blast
  ultimately have "tok @ ([0x2E] @ [c]) @ [] \<in> lang domainPattern"
    unfolding domainPattern_def lang.simps by blast
  moreover have "s = (tok @ ([0x2E] @ [c]) @ []) @ rest" using s by simp
  ultimately show "test_from_start domainPattern s" unfolding test_from_start_lang by blast
qed

subsection \<open>What \<^verbatim>\<open>encodeURIComponent\<close> returns\<close>

lemma unreserved_not_surrogate:
  "uriUnescaped c \<Longrightarrow> \<not> isLeadSurrogate c \<and> \<not> isTrailSurrogate c"
  by (auto simp: uriUnescaped_def wordChar_def isLeadSurrogate_def isTrailSurrogate_def
      word_le_nat_alt)

lemma hexDigit_unreserved:
  assumes "d < 16"
  shows "uriUnescaped (hexDigit d)"
proof -
  from assms have "d = 0 \<or> d = 1 \<or> d = 2 \<or> d = 3 \<or> d = 4 \<or> d = 5 \<or> d = 6 \<or> d = 7 \<or> d = 8 \<or>
      d = 9 \<or> d = 10 \<or> d = 11 \<or> d = 12 \<or> d = 13 \<or> d = 14 \<or> d = 15"
    by arith
  then show ?thesis by (auto simp: hexDigit_def uriUnescaped_def wordChar_def)
qed

lemma percentOctet_chars:
  assumes "b < 256"
  shows "\<forall>x\<in>set (percentOctet b). uriUnescaped x \<or> x = 0x25"
proof -
  from assms have "b div 16 < 16" and "b mod 16 < 16" by auto
  then show ?thesis by (simp add: percentOctet_def hexDigit_unreserved)
qed

lemma utf8_octets: "cp < 0x110000 \<Longrightarrow> \<forall>b\<in>set (utf8 cp). b < 256"
  by (auto simp: utf8_def)

lemma pairToCodePoint_bound:
  "isLeadSurrogate c \<Longrightarrow> isTrailSurrogate d \<Longrightarrow> pairToCodePoint c d < 0x110000"
  by (auto simp: isLeadSurrogate_def isTrailSurrogate_def pairToCodePoint_def word_le_nat_alt)

lemma code_unit_bound: "unat (c :: code_unit) < 0x110000"
  using unsigned_less [of c, where 'a = nat] by simp

lemma percent_encoded_chars:
  assumes "cp < 0x110000"
  shows "\<forall>x\<in>set (concat (map percentOctet (utf8 cp))). uriUnescaped x \<or> x = 0x25"
  using utf8_octets [OF assms] percentOctet_chars by auto

lemma encodeURIComponent_well_formed:
  "well_formed s \<Longrightarrow>
     \<exists>q. encodeURIComponent s = Inr q \<and> (\<forall>x\<in>set q. uriUnescaped x \<or> x = 0x25)"
proof (induction s rule: encodeURIComponent.induct)
  case 1
  show ?case by simp
next
  case (2 c cs)
  show ?case
  proof (cases "uriUnescaped c")
    case True
    with 2 unreserved_not_surrogate [OF True] show ?thesis by auto
  next
    case False
    show ?thesis
    proof (cases "isLeadSurrogate c")
      case lead: True
      with "2.prems" obtain d ds where cs: "cs = d # ds" and d: "isTrailSurrogate d"
        and ds: "well_formed ds"
        by (cases cs) auto
      have "\<not> isTrailSurrogate c"
        using lead by (auto simp: isLeadSurrogate_def isTrailSurrogate_def word_le_nat_alt)
      then have nt: "\<not> isTrailSurrogate c" .
      let ?e = "concat (map percentOctet (utf8 (pairToCodePoint c d)))"
      from "2.IH"(2) [OF False nt lead cs d ds] obtain q
        where q: "encodeURIComponent ds = Inr q" and qs: "\<forall>x\<in>set q. uriUnescaped x \<or> x = 0x25"
        by blast
      have es: "\<forall>x\<in>set ?e. uriUnescaped x \<or> x = 0x25"
        by (rule percent_encoded_chars [OF pairToCodePoint_bound [OF lead d]])
      have "encodeURIComponent (c # cs) = Inr (?e @ q)"
        using False nt lead cs d q by simp
      moreover have "\<forall>x\<in>set (?e @ q). uriUnescaped x \<or> x = 0x25"
        using es qs unfolding set_append by blast
      ultimately show ?thesis by blast
    next
      case nolead: False
      with "2.prems" have nt: "\<not> isTrailSurrogate c" and wf: "well_formed cs" by auto
      let ?e = "concat (map percentOctet (utf8 (unat c)))"
      from "2.IH"(3) [OF False nt nolead wf] obtain q
        where q: "encodeURIComponent cs = Inr q" and qs: "\<forall>x\<in>set q. uriUnescaped x \<or> x = 0x25"
        by blast
      have es: "\<forall>x\<in>set ?e. uriUnescaped x \<or> x = 0x25"
        by (rule percent_encoded_chars [OF code_unit_bound])
      have "encodeURIComponent (c # cs) = Inr (?e @ q)"
        using False nt nolead q by simp
      moreover have "\<forall>x\<in>set (?e @ q). uriUnescaped x \<or> x = 0x25"
        using es qs unfolding set_append by blast
      ultimately show ?thesis by blast
    qed
  qed
qed

lemma encodeURIComponent_lone_surrogate:
  "\<not> well_formed s \<Longrightarrow> encodeURIComponent s = Inl URIError"
proof (induction s rule: encodeURIComponent.induct)
  case 1
  then show ?case by simp
next
  case (2 c cs)
  show ?case
  proof (cases "uriUnescaped c")
    case True
    with 2 unreserved_not_surrogate [OF True] show ?thesis by auto
  next
    case False
    show ?thesis
    proof (cases "isTrailSurrogate c")
      case True
      with False show ?thesis by simp
    next
      case nt: False
      show ?thesis
      proof (cases "isLeadSurrogate c")
        case lead: True
        show ?thesis
        proof (cases cs)
          case Nil
          with False nt lead show ?thesis by simp
        next
          case (Cons d ds)
          show ?thesis
          proof (cases "isTrailSurrogate d")
            case True
            with "2.prems" lead Cons have "\<not> well_formed ds" by simp
            from "2.IH"(2) [OF False nt lead Cons True this] False nt lead Cons True
            show ?thesis by simp
          next
            case False
            with \<open>\<not> uriUnescaped c\<close> nt lead Cons show ?thesis by simp
          qed
        qed
      next
        case nolead: False
        with "2.prems" nt have "\<not> well_formed cs" by simp
        from "2.IH"(3) [OF False nt nolead this] False nt nolead show ?thesis by simp
      qed
    qed
  qed
qed

subsection \<open>The three rules\<close>

text \<open>
  Claim C5, as the code has it. \<open>parseUrl\<close> tries three rules in order and the first that
  applies decides. An input that \<^verbatim>\<open>new URL\<close> accepts gives the serialisation \<^verbatim>\<open>href\<close> of
  that URL. Otherwise an input that begins with a token, a dot and a token character gets
  \<^verbatim>\<open>https://\<close> in front. Otherwise the result is the search URL followed by the encoded
  input, which holds only unreserved characters and \<^verbatim>\<open>%\<close>; an input with a lone surrogate
  raises URIError instead. The three examples of the claim hold on a platform for which
  \<^verbatim>\<open>example.com\<close> and \<^verbatim>\<open>hello world\<close> are no URLs and \<^verbatim>\<open>http://x.com/a\<close> is its own
  serialisation.
\<close>

theorem parseUrl_rules_in_order:
  "(\<forall>href. URL_href P input = Some href \<longrightarrow> parseUrl P input = Inr href) \<and>
   (URL_href P input = None \<and> has_domain_prefix input \<longrightarrow>
      parseUrl P input = Inr (js ''https://'' @ input)) \<and>
   (URL_href P input = None \<and> \<not> has_domain_prefix input \<and> well_formed input \<longrightarrow>
      (\<exists>q. parseUrl P input = Inr (js ''https://www.google.com/search?q='' @ q) \<and>
           encodeURIComponent input = Inr q \<and> (\<forall>c\<in>set q. uriUnescaped c \<or> c = 0x25))) \<and>
   (URL_href P input = None \<and> \<not> has_domain_prefix input \<and> \<not> well_formed input \<longrightarrow>
      parseUrl P input = Inl URIError) \<and>
   (URL_href P (js ''example.com'') = None \<longrightarrow>
      parseUrl P (js ''example.com'') = Inr (js ''https://example.com'')) \<and>
   (URL_href P (js ''http://x.com/a'') = Some (js ''http://x.com/a'') \<longrightarrow>
      parseUrl P (js ''http://x.com/a'') = Inr (js ''http://x.com/a'')) \<and>
   (URL_href P (js ''hello world'') = None \<longrightarrow>
      parseUrl P (js ''hello world'') = Inr (js ''https://www.google.com/search?q=hello%20world''))"
proof -
  have rule1: "\<forall>href. URL_href P input = Some href \<longrightarrow> parseUrl P input = Inr href"
    by (simp add: parseUrl_def)
  have rule2: "URL_href P input = None \<and> has_domain_prefix input \<longrightarrow>
      parseUrl P input = Inr (js ''https://'' @ input)"
    by (simp add: parseUrl_def domain_prefix_iff)
  have rule3: "URL_href P input = None \<and> \<not> has_domain_prefix input \<and> well_formed input \<longrightarrow>
      (\<exists>q. parseUrl P input = Inr (js ''https://www.google.com/search?q='' @ q) \<and>
           encodeURIComponent input = Inr q \<and> (\<forall>c\<in>set q. uriUnescaped c \<or> c = 0x25))"
  proof (intro impI, elim conjE)
    assume none: "URL_href P input = None" and nd: "\<not> has_domain_prefix input"
      and wf: "well_formed input"
    from encodeURIComponent_well_formed [OF wf] obtain q
      where q: "encodeURIComponent input = Inr q" and qs: "\<forall>c\<in>set q. uriUnescaped c \<or> c = 0x25"
      by blast
    have "parseUrl P input = Inr (js ''https://www.google.com/search?q='' @ q)"
      using none nd q by (simp add: parseUrl_def domain_prefix_iff)
    with q qs show "\<exists>q. parseUrl P input = Inr (js ''https://www.google.com/search?q='' @ q) \<and>
           encodeURIComponent input = Inr q \<and> (\<forall>c\<in>set q. uriUnescaped c \<or> c = 0x25)"
      by blast
  qed
  have rule3e: "URL_href P input = None \<and> \<not> has_domain_prefix input \<and> \<not> well_formed input \<longrightarrow>
      parseUrl P input = Inl URIError"
    by (simp add: parseUrl_def domain_prefix_iff encodeURIComponent_lone_surrogate)
  have ex1: "URL_href P (js ''example.com'') = None \<longrightarrow>
      parseUrl P (js ''example.com'') = Inr (js ''https://example.com'')"
    by (simp add: string_defs url_defs)
  have ex2: "URL_href P (js ''http://x.com/a'') = Some (js ''http://x.com/a'') \<longrightarrow>
      parseUrl P (js ''http://x.com/a'') = Inr (js ''http://x.com/a'')"
    by (simp add: parseUrl_def)
  have ex3: "URL_href P (js ''hello world'') = None \<longrightarrow>
      parseUrl P (js ''hello world'') = Inr (js ''https://www.google.com/search?q=hello%20world'')"
    by (simp add: string_defs url_defs)
  from rule1 rule2 rule3 rule3e ex1 ex2 ex3 show ?thesis by blast
qed

text \<open>
  C5 as stated fails: \<^verbatim>\<open>http://x.com\<close> is an absolute URL and is not returned verbatim
  (its serialisation ends in \<^verbatim>\<open>/\<close>), and a lone surrogate gives no search URL.
\<close>

theorem parseUrl_not_verbatim_counterexample:
  "parseUrl sample_platform (js ''http://x.com'') \<noteq> Inr (js ''http://x.com'') \<and>
   parseUrl sample_platform [0xD800] = Inl URIError"
  by (simp add: string_defs url_defs)

text \<open>C5, as the code has it, on the examples of the claim and on three more inputs.\<close>

theorem parseUrl_rules_in_order_witness:
  "parseUrl sample_platform (js ''example.com'') = Inr (js ''https://example.com'') \<and>
   parseUrl sample_platform (js ''http://x.com/a'') = Inr (js ''http://x.com/a'') \<and>
   parseUrl sample_platform (js ''hello world'') =
     Inr (js ''https://www.google.com/search?q=hello%20world'') \<and>
   parseUrl sample_platform (js ''http://x.com'') = Inr (js ''http://x.com/'') \<and>
   parseUrl sample_platform (js ''example.com is great'') =
     Inr (js ''https://example.com is great'') \<and>
   parseUrl sample_platform [0xD800] = Inl URIError"
proof -
  have u1: "URL_href sample_platform (js ''example.com'') = None"
    and u2: "URL_href sample_platform (js ''http://x.com/a'') = Some (js ''http://x.com/a'')"
    and u3: "URL_href sample_platform (js ''hello world'') = None"
    and u4: "URL_href sample_platform (js ''http://x.com'') = Some (js ''http://x.com/'')"
    and u5: "URL_href sample_platform (js ''example.com is great'') = None"
    and u6: "URL_href sample_platform [0xD800] = None"
    by (simp_all add: string_defs sample_platform_def sample_URL_href_def)
  have d5: "has_domain_prefix (js ''example.com is great'')"
    unfolding domain_prefix_iff [symmetric] by (simp add: string_defs url_defs)
  have d6: "\<not> has_domain_prefix [0xD800]"
    unfolding domain_prefix_iff [symmetric] by (simp add: string_defs url_defs)
  have w6: "\<not> well_formed [0xD800]" by (simp add: isLeadSurrogate_def)
  from parseUrl_rules_in_order [of sample_platform "js ''http://x.com''"]
       parseUrl_rules_in_order [of sample_platform "js ''example.com is great''"]
       parseUrl_rules_in_order [of sample_platform "[0xD800]"]
       u1 u2 u3 u4 u5 u6 d5 d6 w6
  show ?thesis by (simp add: js_def)
qed

section \<open>Finding and acting on elements\<close>

lemma startsWith_iff: "startsWith s t \<longleftrightarrow> (\<exists>q. s = t @ q)"
  by (induction s t rule: startsWith.induct) auto

lemma js_includes_iff: "js_includes s t \<longleftrightarrow> (\<exists>p q. s = p @ t @ q)"
proof (induction s)
  case Nil
  show ?case by auto
next
  case (Cons d s)
  have "(\<exists>p q. d # s = p @ t @ q) \<longleftrightarrow> (\<exists>q. d # s = t @ q) \<or> (\<exists>p q. s = p @ t @ q)"
    by (auto simp: Cons_eq_append_conv)
  with Cons show ?case by (simp add: startsWith_iff del: startsWith.simps)
qed

lemma findIndex_Some:
  "findIndex p xs = Some i \<Longrightarrow> i < length xs \<and> p (xs ! i) \<and> (\<forall>j<i. \<not> p (xs ! j))"
proof (induction xs arbitrary: i)
  case Nil
  then show ?case by simp
next
  case (Cons x xs)
  show ?case
  proof (cases "p x")
    case True
    with Cons.prems show ?thesis by simp
  next
    case False
    with Cons.prems obtain k where k: "findIndex p xs = Some k" and i: "i = Suc k" by auto
    from Cons.IH [OF k] False i show ?thesis by (auto simp: less_Suc_eq_0_disj)
  qed
qed

lemma getElementById_Some:
  "getElementById doc x = Some i \<Longrightarrow>
     i < length doc \<and> elem_id (doc ! i) = x \<and> (\<forall>j<i. elem_id (doc ! j) \<noteq> x)"
  by (auto simp: getElementById_def split: if_splits dest: findIndex_Some)

lemma find_throwing_Some:
  "find_throwing p xs = Inr (Some x) \<Longrightarrow> x \<in> set xs \<and> p x = Inr True"
  by (induction xs) (auto split: sum.splits if_splits)

text \<open>
  An element found by text is one of \<^verbatim>\<open>a, button, input, [onclick]\<close>.
\<close>

lemma find_by_text_Some:
  "find_by_text P doc target = Inr (Some i) \<Longrightarrow>
     i < length doc \<and> textCandidate (doc ! i) \<and> text_matches P target (doc ! i) = Inr True"
  by (auto simp: find_by_text_def dest: find_throwing_Some)

lemma find_by_label_Some: "find_by_label P doc target = Some i \<Longrightarrow> i < length doc"
proof -
  assume a: "find_by_label P doc target = Some i"
  then obtain l where l: "find (\<lambda>l. js_includes (toLowerCase P (textContent (doc ! l))) target)
             (filter (\<lambda>l. tagName (doc ! l) = js ''LABEL'') [0..<length doc]) = Some l"
    by (auto simp: find_by_label_def split: option.splits)
  then have ll: "l < length doc" by (auto simp: find_Some_iff dest: nth_mem)
  show ?thesis
  proof (cases "getElementById doc (htmlFor (doc ! l))")
    case (Some j)
    with a l have "i = j" by (simp add: find_by_label_def)
    with getElementById_Some [OF Some] show ?thesis by simp
  next
    case None
    with a l obtain k
      where k: "findIndex labelledControl (take (inside (doc ! l)) (drop (Suc l) doc)) = Some k"
        and i: "i = Suc l + k"
      by (auto simp: find_by_label_def)
    from findIndex_Some [OF k] have "k < length (drop (Suc l) doc)" by simp
    with i show ?thesis by simp
  qed
qed

text \<open>The element found is an element of the document.\<close>

lemma find_element_in_document:
  "find_element P doc tgt = Inr (Some i) \<Longrightarrow> i < length doc"
  by (auto simp: find_element_def Let_def querySelector_caught_def
      split: if_splits option.splits sum.splits
      dest: getElementById_Some find_by_text_Some find_by_label_Some)

text \<open>
  The four searches are tried in the order id, selector, text, label, each with the
  lower-cased target and only when the ones before found nothing. A target that has no
  upper-case letter and is the id of an element finds the first element with that id.
\<close>

lemma find_element_order:
  assumes "t \<noteq> []"
  shows "find_element P doc (Some t) =
     (case getElementById doc (toLowerCase P t) of
        Some i \<Rightarrow> Inr (Some i)
      | None \<Rightarrow>
          (case querySelector_caught P doc (toLowerCase P t) of
             Some i \<Rightarrow> Inr (Some i)
           | None \<Rightarrow>
               (case find_by_text P doc (toLowerCase P t) of
                  Inl e \<Rightarrow> Inl e
                | Inr (Some i) \<Rightarrow> Inr (Some i)
                | Inr None \<Rightarrow> Inr (find_by_label P doc (toLowerCase P t)))))"
  using assms by (simp add: find_element_def truthy_def or_empty_def Let_def)

lemma find_element_by_id:
  assumes "t \<noteq> []" and "toLowerCase P t = t" and "getElementById doc t = Some i"
  shows "find_element P doc (Some t) = Inr (Some i)"
  using assms by (simp add: find_element_order)

text \<open>
  The search by id finds an element whose id is the target only for a target that is
  its own lower-casing.
\<close>

lemma id_found_only_lower_case:
  assumes "getElementById doc (toLowerCase P t) = Some i" and "elem_id (doc ! i) = t"
  shows "toLowerCase P t = t"
  using getElementById_Some [OF assms(1)] assms(2) by simp

text \<open>
  Claim C6, on the sample document, with a button of id \<^verbatim>\<open>Submit\<close> and a second button
  whose text is \<^verbatim>\<open>Submit form\<close>: for the target \<^verbatim>\<open>Submit\<close> the element with that id is
  the first button, yet the code looks up the lower-cased target, finds no such id and
  returns the second button, found by its text.
\<close>

theorem find_element_misses_mixed_case_id:
  "getElementById sample_document (js ''Submit'') = Some 3 \<and>
   js_includes (textContent (sample_document ! 4)) (js ''Submit'') \<and>
   find_element sample_platform sample_document (Some (js ''Submit'')) = Inr (Some 4)"
  by (simp add: agent_defs string_defs url_defs browser_defs upt_rec)

text \<open>
  Claim C7, on the same document: the text area whose placeholder is \<^verbatim>\<open>Your comment\<close> is
  not among the elements searched by text, so the target \<^verbatim>\<open>comment\<close> finds nothing and
  typing into it fails.
\<close>

theorem textarea_is_no_text_candidate:
  "tagName (sample_document ! 5) = js ''TEXTAREA'' \<and>
   placeholder (sample_document ! 5) = Str (js ''Your comment'') \<and>
   \<not> textCandidate (sample_document ! 5) \<and>
   find_element sample_platform sample_document (Some (js ''comment'')) = Inr None \<and>
   executeAction sample_platform (Type (js ''hello'') (js ''comment'')) sample_world =
     (Inr False, sample_world)"
  by (simp add: agent_defs string_defs url_defs browser_defs upt_rec)

lemma matching_option_None:
  "matching_option P v el = None \<longleftrightarrow>
     (\<forall>opt\<in>set (options el).
        \<not> js_includes (toLowerCase P (opt_text opt)) (toLowerCase P v) \<and>
        \<not> js_includes (toLowerCase P (opt_value opt)) (toLowerCase P v))"
  by (auto simp: matching_option_def find_None_iff)

lemma matching_option_Some:
  "matching_option P v el = Some opt \<Longrightarrow>
     opt \<in> set (options el) \<and>
     (js_includes (toLowerCase P (opt_text opt)) (toLowerCase P v) \<or>
      js_includes (toLowerCase P (opt_value opt)) (toLowerCase P v))"
  by (auto simp: matching_option_def find_Some_iff)

text \<open>
  Claim C9. For a select action whose target is found and is a \<^verbatim>\<open>select\<close> element: no
  option matches exactly when no option's lower-cased text or value contains the
  lower-cased value of the action; then the action returns \<^verbatim>\<open>true\<close> and leaves the state
  as it was, the element's value and the recorded events included. An option that matches
  is one of the element's options and contains the value in that sense; the element then
  takes the option's value and a change event is dispatched.
\<close>

theorem select_without_match_reports_success:
  assumes "page_frame (page w) = Some fr" and "content fr = SameOrigin doc"
    and "find_element P doc (Some t) = Inr (Some i)" and "tagName (doc ! i) = js ''SELECT''"
  shows
    "(matching_option P v (doc ! i) = None \<longleftrightarrow>
        (\<forall>opt\<in>set (options (doc ! i)).
           \<not> js_includes (toLowerCase P (opt_text opt)) (toLowerCase P v) \<and>
           \<not> js_includes (toLowerCase P (opt_value opt)) (toLowerCase P v))) \<and>
     (matching_option P v (doc ! i) = None \<longrightarrow>
        executeAction P (Select v t) w = (Inr True, w)) \<and>
     (\<forall>opt. matching_option P v (doc ! i) = Some opt \<longrightarrow>
        opt \<in> set (options (doc ! i)) \<and>
        (js_includes (toLowerCase P (opt_text opt)) (toLowerCase P v) \<or>
         js_includes (toLowerCase P (opt_value opt)) (toLowerCase P v)) \<and>
        executeAction P (Select v t) w =
          (Inr True,
           add_effects [DispatchEvent i (js ''change'')]
             (set_document (doc[i := (doc ! i)\<lparr>elem_value := Str (opt_value opt)\<rparr>]) w)))"
  using assms matching_option_None [of P v "doc ! i"] matching_option_Some [of P v "doc ! i"]
  by (auto simp: executeIframeAction_def)

text \<open>
  C9 on the sample document: \<^verbatim>\<open>Spain\<close> matches no option of the select and changes
  nothing; \<^verbatim>\<open>GERM\<close> matches \<^verbatim>\<open>Germany\<close>.
\<close>

theorem select_without_match_reports_success_witness:
  "executeAction sample_platform (Select (js ''Spain'') (js ''country'')) sample_world =
     (Inr True, sample_world) \<and>
   executeAction sample_platform (Select (js ''GERM'') (js ''country'')) sample_world =
     (Inr True,
      add_effects [DispatchEvent 6 (js ''change'')]
        (set_document
           (sample_document[6 := (sample_document ! 6)\<lparr>elem_value := Str (js ''de'')\<rparr>])
           sample_world))"
proof -
  let ?fr = "\<lparr>src = js ''https://b.example/'', content = SameOrigin sample_document\<rparr>"
  have fr: "page_frame (page sample_world) = Some ?fr" by (simp add: sample_world_def)
  have doc: "content ?fr = SameOrigin sample_document" by simp
  have el: "find_element sample_platform sample_document (Some (js ''country'')) = Inr (Some 6)"
    by (simp add: agent_defs string_defs url_defs browser_defs upt_rec)
  have tag: "tagName (sample_document ! 6) = js ''SELECT''" by (simp add: sample_document_def plain_element_def)
  have none: "matching_option sample_platform (js ''Spain'') (sample_document ! 6) = None"
    by (simp add: agent_defs string_defs url_defs)
  have some: "matching_option sample_platform (js ''GERM'') (sample_document ! 6) =
      Some \<lparr>opt_text = js ''Germany'', opt_value = js ''de''\<rparr>"
    by (simp add: agent_defs string_defs url_defs)
  from select_without_match_reports_success [OF fr doc el tag, of "js ''Spain''"]
       select_without_match_reports_success [OF fr doc el tag, of "js ''GERM''"] none some
  show ?thesis by simp
qed

section \<open>Executing a list of actions\<close>

lemma actions_loop_step:
  "actions_loop P d (a # as) rs w =
     actions_loop P d as (rs @ [result_of a (fst (executeAction P a w))]) (world_after P d w a)"
  by (simp add: result_of_def world_after_def split: prod.split sum.split)

lemma actions_loop_acc:
  "fst (actions_loop P d as rs w) = rs @ fst (actions_loop P d as [] w)"
proof (induction as arbitrary: rs w)
  case Nil
  show ?case by simp
next
  case (Cons a as)
  let ?r = "result_of a (fst (executeAction P a w))"
  let ?w = "world_after P d w a"
  have "fst (actions_loop P d (a # as) rs w) = (rs @ [?r]) @ fst (actions_loop P d as [] ?w)"
    unfolding actions_loop_step by (rule Cons.IH)
  also have "\<dots> = rs @ ([] @ [?r]) @ fst (actions_loop P d as [] ?w)" by simp
  also have "\<dots> = rs @ fst (actions_loop P d (a # as) [] w)"
    unfolding actions_loop_step [of P d a as "[]"] using Cons.IH [of "[] @ [?r]" ?w] by simp
  finally show ?case .
qed

lemma actions_loop_Cons:
  "fst (actions_loop P d (a # as) [] w) =
     result_of a (fst (executeAction P a w)) # fst (actions_loop P d as [] (world_after P d w a))"
  unfolding actions_loop_step using actions_loop_acc [of P d as "[] @ [result_of a (fst (executeAction P a w))]"]
  by simp

lemma action_of_result_of [simp]: "action_of (result_of a r) = a"
  by (simp add: result_of_def split: sum.split)

lemma actions_loop_actions: "map action_of (fst (actions_loop P d as [] w)) = as"
  by (induction as arbitrary: w) (simp_all add: actions_loop_Cons del: actions_loop.simps(2))

lemma actions_loop_length: "length (fst (actions_loop P d as [] w)) = length as"
  by (induction as arbitrary: w) (simp_all add: actions_loop_Cons del: actions_loop.simps(2))

lemma actions_loop_nth:
  "k < length as \<Longrightarrow>
     fst (actions_loop P d as [] w) ! k =
       result_of (as ! k) (fst (executeAction P (as ! k) (foldl (world_after P d) w (take k as))))"
proof (induction as arbitrary: w k)
  case Nil
  then show ?case by simp
next
  case (Cons a as)
  show ?case
  proof (cases k)
    case 0
    then show ?thesis by (simp add: actions_loop_Cons del: actions_loop.simps(2))
  next
    case (Suc j)
    with Cons.prems have "j < length as" by simp
    from Cons.IH [OF this, of "world_after P d w a"] Suc show ?thesis
      by (simp add: actions_loop_Cons del: actions_loop.simps(2))
  qed
qed

text \<open>
  Claim C8, as the code has it. Called while the agent is running, \<open>executeActions\<close> returns
  nothing and leaves the state as it is. Otherwise it returns one result for each action,
  in the order of the actions: the result at position \<open>k\<close> is that of executing action \<open>k\<close>
  in the state left by the actions before it, an exception giving a failed result that
  holds the error; and the agent is not running afterwards.
\<close>

theorem executeActions_one_result_per_action:
  "(isRunning w \<longrightarrow> executeActions P delay actions w = (None, w)) \<and>
   (\<not> isRunning w \<longrightarrow>
      (\<exists>results w'.
         executeActions P delay actions w = (Some results, w') \<and>
         length results = length actions \<and>
         map action_of results = actions \<and>
         (\<forall>k<length actions.
            results ! k =
              result_of (actions ! k)
                (fst (executeAction P (actions ! k)
                   (foldl (world_after P delay) (w\<lparr>isRunning := True, status := Running\<rparr>)
                      (take k actions))))) \<and>
         \<not> isRunning w'))"
proof (cases "isRunning w")
  case True
  then show ?thesis by (simp add: executeActions_def)
next
  case False
  let ?w = "w\<lparr>isRunning := True, status := Running\<rparr>"
  obtain rs w1 where run: "actions_loop P delay actions [] ?w = (rs, w1)"
    by (cases "actions_loop P delay actions [] ?w")
  then have rs: "rs = fst (actions_loop P delay actions [] ?w)" by simp
  have "executeActions P delay actions w = (Some rs, w1\<lparr>isRunning := False, status := Idle\<rparr>)"
    using False run by (simp add: executeActions_def)
  moreover have "length rs = length actions" unfolding rs by (rule actions_loop_length)
  moreover have "map action_of rs = actions" unfolding rs by (rule actions_loop_actions)
  moreover have "\<forall>k<length actions.
            rs ! k = result_of (actions ! k)
                (fst (executeAction P (actions ! k)
                   (foldl (world_after P delay) ?w (take k actions))))"
    unfolding rs by (simp add: actions_loop_nth)
  ultimately show ?thesis using False by simp
qed

text \<open>
  C8 as stated fails while the agent is running: a list of one action gets no list of
  results.
\<close>

theorem executeActions_while_running_counterexample:
  "\<not> (\<exists>results. fst (executeActions sample_platform (\<lambda>w. w) [Scroll Down]
                        (sample_world\<lparr>isRunning := True\<rparr>)) = Some results \<and>
                  length results = length [Scroll Down])"
  by (simp add: executeActions_def)

text \<open>
  C8, as the code has it, on three actions of which the second raises URIError: three
  results, the second failed, the first and the third successful.
\<close>

theorem executeActions_one_result_per_action_witness:
  "executeActions sample_platform (\<lambda>w. w)
      [Scroll Down, NavigateTo [0xD800], Click (js ''send'')] sample_world =
     (Some [\<lparr>action_of = Scroll Down, success = True, failure = None\<rparr>,
            \<lparr>action_of = NavigateTo [0xD800], success = False, failure = Some URIError\<rparr>,
            \<lparr>action_of = Click (js ''send''), success = True, failure = None\<rparr>],
      sample_world\<lparr>effects := [ScrollBy 0 300, ClickOn 3]\<rparr>) \<and>
   executeActions sample_platform (\<lambda>w. w) [Scroll Down] (sample_world\<lparr>isRunning := True\<rparr>) =
     (None, sample_world\<lparr>isRunning := True\<rparr>)"
proof -
  have idle: "\<not> isRunning sample_world" by (simp add: sample_world_def)
  have busy: "isRunning (sample_world\<lparr>isRunning := True\<rparr>)" by simp
  have run: "executeActions sample_platform (\<lambda>w. w)
      [Scroll Down, NavigateTo [0xD800], Click (js ''send'')] sample_world =
     (Some [\<lparr>action_of = Scroll Down, success = True, failure = None\<rparr>,
            \<lparr>action_of = NavigateTo [0xD800], success = False, failure = Some URIError\<rparr>,
            \<lparr>action_of = Click (js ''send''), success = True, failure = None\<rparr>],
      sample_world\<lparr>effects := [ScrollBy 0 300, ClickOn 3]\<rparr>)"
    by (simp add: agent_defs string_defs url_defs browser_defs upt_rec)
  from executeActions_one_result_per_action
         [of "sample_world\<lparr>isRunning := True\<rparr>" sample_platform "\<lambda>w. w" "[Scroll Down]"]
       executeActions_one_result_per_action
         [of sample_world sample_platform "\<lambda>w. w"
             "[Scroll Down, NavigateTo [0xD800], Click (js ''send'')]"]
       idle busy run
  show ?thesis by simp
qed

end
